theory Spec2Isabelle
  imports Main "HOL-Library.AList" "HOL-Library.Multiset"
begin

section \<open>dumbcas: a content-addressed blob store, its garbage collector and fsck gate\<close>

text \<open>
  The development embeds the Go sources of dumbcas: the blob store \<^verbatim>\<open>casTable\<close>
  (file path computation, \<^verbatim>\<open>Enumerate\<close>, \<^verbatim>\<open>AddEntry\<close>, \<^verbatim>\<open>Open\<close>,
  \<^verbatim>\<open>Remove\<close>, the \<^verbatim>\<open>need_fsck\<close> marker), the in-memory \<^verbatim>\<open>mockCasTable\<close>,
  the garbage collector \<^verbatim>\<open>gcRun.main\<close> with \<^verbatim>\<open>TagRecurse\<close>, and \<^verbatim>\<open>CommonFlag\<close>.
  A Go \<^verbatim>\<open>[]byte\<close> and a Go \<^verbatim>\<open>string\<close> are both byte strings.
\<close>

subsection \<open>Errors\<close>

type_synonym bytes = string

text \<open>
  Go errors as values. \<open>ErrInvalid\<close>, \<open>ErrExist\<close> and \<open>ErrNotExist\<close> are the
  conditions of package \<^verbatim>\<open>os\<close>; \<open>ErrNotDir\<close> and \<open>ErrIsDir\<close> are the system
  errors ENOTDIR and EISDIR; \<open>ReadError\<close> is a failure of an \<^verbatim>\<open>io.Reader\<close>;
  \<open>Errorf\<close> is a \<^verbatim>\<open>fmt.Errorf\<close> value, identified by its format string.
\<close>

datatype error =
    ErrInvalid
  | ErrExist
  | ErrNotExist
  | ErrNotDir
  | ErrIsDir
  | ReadError string
  | Errorf string

definition os_IsExist :: "error option \<Rightarrow> bool" where
  "os_IsExist err = (err = Some ErrExist)"

definition os_IsNotExist :: "error option \<Rightarrow> bool" where
  "os_IsNotExist err = (err = Some ErrNotExist)"

subsection \<open>Constants and the name patterns of the blob store\<close>

definition needFsckName :: string where
  "needFsckName = ''need_fsck''"

definition hashLength :: nat where
  "hashLength = 40"

definition splitAt :: nat where
  "splitAt = 3"

text \<open>\<^verbatim>\<open>MakeCasTable\<close> sets the field \<^verbatim>\<open>prefixLength\<close> of every table to \<^verbatim>\<open>splitAt\<close>.\<close>

definition prefixLength :: nat where
  "prefixLength = splitAt"

text \<open>The character class \<^verbatim>\<open>[a-f0-9]\<close>.\<close>

definition hexChar :: "char \<Rightarrow> bool" where
  "hexChar ch = (ch \<in> set ''abcdef0123456789'')"

text \<open>
  The regular expression \<^verbatim>\<open>^[a-f0-9]{n}$\<close>. Go's \<^verbatim>\<open>$\<close> without the multi-line
  flag matches at the end of the text only, so a match is a string of exactly \<open>n\<close>
  characters of the class.
\<close>

definition hexMatch :: "nat \<Rightarrow> string \<Rightarrow> bool" where
  "hexMatch n s = (length s = n \<and> list_all hexChar s)"

definition validPath :: "string \<Rightarrow> bool" where
  "validPath hash = hexMatch hashLength hash"

definition rePrefix :: "string \<Rightarrow> bool" where
  "rePrefix prefix = hexMatch prefixLength prefix"

definition reRest :: "string \<Rightarrow> bool" where
  "reRest item = hexMatch (hashLength - prefixLength) item"

text \<open>
  Modelled from the spec: the constant \<^verbatim>\<open>TrashName\<close> is declared with the Trash
  component, whose source is not among the sources at hand. It is the name of the
  quarantine directory that \<^verbatim>\<open>MakeTrash(casDir)\<close> places under the store directory.
\<close>

definition TrashName :: string where
  "TrashName = ''trash''"

subsection \<open>The directory of the blob store\<close>

text \<open>
  A directory is the list of its entries in the order \<^verbatim>\<open>Readdirnames\<close> returns
  them. The state of a \<^verbatim>\<open>casTable\<close> is what is on disk below \<^verbatim>\<open>c.casDir\<close>:
  \<open>casDir\<close> holds every entry of that directory but the trash directory, and \<open>trash\<close>
  is the content of the trash directory (\<open>None\<close> while it has not been created).
  The directory \<^verbatim>\<open>c.casDir\<close> itself exists and is readable (\<^verbatim>\<open>MakeCasTable\<close>
  created it).
\<close>

datatype node = File bytes | Dir "(string \<times> node) list"

record casTable =
  casDir :: "(string \<times> node) list"
  trash :: "(string list \<times> node) list option"

text \<open>
  \<^verbatim>\<open>filePath\<close>: the location of a hash below \<^verbatim>\<open>casDir\<close>, as the pair of the shard
  directory \<^verbatim>\<open>match[0][:prefixLength]\<close> and the file name
  \<^verbatim>\<open>match[0][prefixLength:]\<close>; \<open>None\<close> is the empty string the source returns for a
  hash that does not match. The second test of the source, \<^verbatim>\<open>path.IsAbs(fullPath)\<close>,
  cannot fail: \<^verbatim>\<open>MakeCasTable\<close> refuses a root directory that is not absolute.
\<close>

definition filePath :: "string \<Rightarrow> (string \<times> string) option" where
  "filePath hash =
     (if \<not> validPath hash then None
      else Some (take prefixLength hash, drop prefixLength hash))"

text \<open>
  \<^verbatim>\<open>readDirNames\<close> on \<^verbatim>\<open>casDir\<close> and on a shard directory below it. Opening a
  shard that is missing or is not a directory fails.
\<close>

definition readDirNames_casDir :: "casTable \<Rightarrow> string list" where
  "readDirNames_casDir c =
     map fst (casDir c) @ (if trash c = None then [] else [TrashName])"

definition readDirNames :: "casTable \<Rightarrow> string \<Rightarrow> error + string list" where
  "readDirNames c prefix =
     (case map_of (casDir c) prefix of
        None \<Rightarrow> Inl ErrNotExist
      | Some (File _) \<Rightarrow> Inl ErrNotDir
      | Some (Dir subitems) \<Rightarrow> Inr (map fst subitems))"

text \<open>
  \<^verbatim>\<open>NeedFsck\<close>: \<^verbatim>\<open>os.Create\<close> of the marker file truncates an existing file and
  creates a missing one; on a directory of that name it fails, and the source drops
  the error.
\<close>

definition NeedFsck :: "casTable \<Rightarrow> casTable" where
  "NeedFsck c =
     (case map_of (casDir c) needFsckName of
        Some (Dir _) \<Rightarrow> c
      | _ \<Rightarrow> c\<lparr>casDir := AList.update needFsckName (File []) (casDir c)\<rparr>)"

text \<open>\<^verbatim>\<open>WarnIfFsckIsNeeded\<close>: \<^verbatim>\<open>os.Open\<close> succeeds on whatever bears the marker's name.\<close>

definition WarnIfFsckIsNeeded :: "casTable \<Rightarrow> bool" where
  "WarnIfFsckIsNeeded c = (map_of (casDir c) needFsckName \<noteq> None)"

text \<open>
  Modelled from the spec: \<^verbatim>\<open>Trash.Move\<close> is not among the sources at hand.
  The spec: it "relocates a path from inside the store into a quarantine subtree,
  creating parent structure as needed", it "moves (never permanently deletes)", and a
  removal "fails if digest is ... already absent". A relative path is the list of its
  components, \<open>[prefix]\<close> or \<open>[prefix, item]\<close>; the quarantine subtree is the list of the
  relocated paths with what was found there.
\<close>

fun trash_Move :: "string list \<Rightarrow> casTable \<Rightarrow> error option \<times> casTable" where
  "trash_Move [name] c =
     (case map_of (casDir c) name of
        None \<Rightarrow> (Some ErrNotExist, c)
      | Some n \<Rightarrow>
          (None, c\<lparr>casDir := AList.delete name (casDir c),
                   trash := Some ((case trash c of None \<Rightarrow> [] | Some t \<Rightarrow> t) @ [([name], n)])\<rparr>))"
| "trash_Move [prefix, item] c =
     (case map_of (casDir c) prefix of
        Some (Dir subitems) \<Rightarrow>
          (case map_of subitems item of
             None \<Rightarrow> (Some ErrNotExist, c)
           | Some n \<Rightarrow>
               (None, c\<lparr>casDir := AList.update prefix (Dir (AList.delete item subitems)) (casDir c),
                        trash := Some ((case trash c of None \<Rightarrow> [] | Some t \<Rightarrow> t) @ [([prefix, item], n)])\<rparr>))
      | Some (File _) \<Rightarrow> (Some ErrNotDir, c)
      | None \<Rightarrow> (Some ErrNotExist, c))"
| "trash_Move relPath c = (Some ErrInvalid, c)"

subsection \<open>Enumerate\<close>

record CasEntry =
  Item :: string
  Error :: "error option"

text \<open>
  \<^verbatim>\<open>casTable.Enumerate\<close>. The goroutine sends the entries on a channel; the model
  returns them as the list the consumer receives when it drains the channel, with the
  directory as the pass leaves it. The names of \<^verbatim>\<open>casDir\<close> are read once, before the
  loop; each shard is read when the loop reaches it.

  \<^verbatim>\<open>IsInterrupted()\<close> reads a flag that is set when the process is told to stop; the
  function is not among the sources at hand. It is the parameter \<open>IsInterrupted\<close>: what
  the call at the \<open>k\<close>-th turn of the loop over the names answers.
\<close>

fun enumerateItems :: "string \<Rightarrow> string list \<Rightarrow> casTable \<Rightarrow> CasEntry list \<times> casTable" where
  "enumerateItems prefix [] c = ([], c)"
| "enumerateItems prefix (item # subitems) c =
     (if \<not> reRest item then
        enumerateItems prefix subitems (NeedFsck (snd (trash_Move [prefix, item] c)))
      else
        (let (out, c') = enumerateItems prefix subitems c
         in (\<lparr>Item = prefix @ item, Error = None\<rparr> # out, c')))"

fun enumeratePrefixes :: "(nat \<Rightarrow> bool) \<Rightarrow> nat \<Rightarrow> string list \<Rightarrow> casTable \<Rightarrow>
    CasEntry list \<times> casTable" where
  "enumeratePrefixes IsInterrupted k [] c = ([], c)"
| "enumeratePrefixes IsInterrupted k (prefix # prefixes) c =
     (if IsInterrupted k then ([], c)
      else if prefix = TrashName then enumeratePrefixes IsInterrupted (Suc k) prefixes c
      else if \<not> rePrefix prefix then
        enumeratePrefixes IsInterrupted (Suc k) prefixes (NeedFsck (snd (trash_Move [prefix] c)))
      else
        (case readDirNames c prefix of
           Inl err \<Rightarrow>
             (let (out, c') = enumeratePrefixes IsInterrupted (Suc k) prefixes (NeedFsck c)
              in (\<lparr>Item = [], Error = Some (Errorf ''Failed reading %s'')\<rparr> # out, c'))
         | Inr subitems \<Rightarrow>
             (let (out1, c1) = enumerateItems prefix subitems c;
                  (out2, c2) = enumeratePrefixes IsInterrupted (Suc k) prefixes c1
              in (out1 @ out2, c2))))"

definition casTable_Enumerate :: "(nat \<Rightarrow> bool) \<Rightarrow> casTable \<Rightarrow> CasEntry list \<times> casTable" where
  "casTable_Enumerate IsInterrupted c =
     enumeratePrefixes IsInterrupted 0 (readDirNames_casDir c) c"

text \<open>
  The loop over given names, and the whole pass, when no interruption is requested:
  \<^verbatim>\<open>IsInterrupted()\<close> answers false at every turn.
\<close>

definition fullPass :: "string list \<Rightarrow> casTable \<Rightarrow> CasEntry list \<times> casTable" where
  "fullPass prefixes c = enumeratePrefixes (\<lambda>k. False) 0 prefixes c"

definition fullEnumerate :: "casTable \<Rightarrow> CasEntry list \<times> casTable" where
  "fullEnumerate c = casTable_Enumerate (\<lambda>k. False) c"


subsection \<open>AddEntry, Open, Remove\<close>

text \<open>
  An \<^verbatim>\<open>io.Reader\<close> is the bytes it delivers and the error that ends it, if any
  (\<open>None\<close>: it ends with \<^verbatim>\<open>io.EOF\<close>, which \<^verbatim>\<open>io.Copy\<close> and
  \<^verbatim>\<open>ioutil.ReadAll\<close> report as success).
\<close>

record reader =
  delivered :: bytes
  failure :: "error option"

text \<open>\<^verbatim>\<open>bytes.NewBuffer(data)\<close>: a reader that delivers the data and ends.\<close>

definition bytes_NewBuffer :: "bytes \<Rightarrow> reader" where
  "bytes_NewBuffer data = \<lparr>delivered = data, failure = None\<rparr>"

text \<open>
  \<^verbatim>\<open>casTable.AddEntry\<close>. \<^verbatim>\<open>os.OpenFile\<close> with \<^verbatim>\<open>O_CREATE|O_EXCL\<close> fails with
  ENOENT on the empty path of an invalid hash and on a missing shard directory, with
  ENOTDIR when the shard is a file, and with EEXIST when the name is taken. Once the
  file is created, \<^verbatim>\<open>io.Copy\<close> writes what the source delivers and returns the
  source's error; the file is closed and stays.
\<close>

definition casTable_AddEntry :: "reader \<Rightarrow> string \<Rightarrow> casTable \<Rightarrow> error option \<times> casTable" where
  "casTable_AddEntry source hash c =
     (case filePath hash of
        None \<Rightarrow> (Some (Errorf ''Failed to copy(dst) %s: %s''), c)
      | Some (prefix, item) \<Rightarrow>
          (case map_of (casDir c) prefix of
             None \<Rightarrow> (Some (Errorf ''Failed to copy(dst) %s: %s''), c)
           | Some (File _) \<Rightarrow> (Some (Errorf ''Failed to copy(dst) %s: %s''), c)
           | Some (Dir subitems) \<Rightarrow>
               (if map_of subitems item \<noteq> None then (Some ErrExist, c)
                else (failure source,
                      c\<lparr>casDir := AList.update prefix
                          (Dir (subitems @ [(item, File (delivered source))])) (casDir c)\<rparr>))))"

text \<open>
  \<^verbatim>\<open>casTable.Open\<close>. The handle is the node that is opened; \<^verbatim>\<open>os.Open\<close> reads
  only, so the directory is as before the call.
\<close>

definition casTable_Open :: "string \<Rightarrow> casTable \<Rightarrow> error + node" where
  "casTable_Open hash c =
     (case filePath hash of
        None \<Rightarrow> Inl ErrInvalid
      | Some (prefix, item) \<Rightarrow>
          (case map_of (casDir c) prefix of
             None \<Rightarrow> Inl ErrNotExist
           | Some (File _) \<Rightarrow> Inl ErrNotDir
           | Some (Dir subitems) \<Rightarrow>
               (case map_of subitems item of
                  None \<Rightarrow> Inl ErrNotExist
                | Some n \<Rightarrow> Inr n)))"

text \<open>\<^verbatim>\<open>ioutil.ReadAll\<close> on an opened handle.\<close>

fun ioutil_ReadAll :: "node \<Rightarrow> error + bytes" where
  "ioutil_ReadAll (File data) = Inr data"
| "ioutil_ReadAll (Dir _) = Inl ErrIsDir"

definition casTable_Remove :: "string \<Rightarrow> casTable \<Rightarrow> error option \<times> casTable" where
  "casTable_Remove hash c =
     (if \<not> validPath hash then (Some (Errorf ''Remove(%s) is invalid''), c)
      else trash_Move [take prefixLength hash, drop prefixLength hash] c)"

text \<open>A run of \<^verbatim>\<open>AddEntry\<close> calls, as a client of the store issues them.\<close>

fun addEntries :: "(reader \<times> string) list \<Rightarrow> casTable \<Rightarrow> casTable" where
  "addEntries [] c = c"
| "addEntries ((source, hash) # calls) c = addEntries calls (snd (casTable_AddEntry source hash c))"

subsection \<open>Digests\<close>

text \<open>
  \<^verbatim>\<open>hex.EncodeToString\<close>: two characters of the table \<^verbatim>\<open>0123456789abcdef\<close> for
  each byte, the high half first.
\<close>

definition hextable :: string where
  "hextable = ''0123456789abcdef''"

definition hex_EncodeToString :: "bytes \<Rightarrow> string" where
  "hex_EncodeToString src =
     concat (map (\<lambda>v. [hextable ! ((of_char v :: nat) div 16), hextable ! ((of_char v :: nat) mod 16)]) src)"

text \<open>
  \<^verbatim>\<open>sha1Bytes\<close>. The hash of package \<^verbatim>\<open>crypto/sha1\<close> is a parameter: the function
  \<open>sha1_Sum\<close> from a content to the bytes of its checksum.
\<close>

definition sha1Bytes :: "(bytes \<Rightarrow> bytes) \<Rightarrow> bytes \<Rightarrow> string" where
  "sha1Bytes sha1_Sum content = hex_EncodeToString (sha1_Sum content)"

text \<open>
  \<^verbatim>\<open>AddBytes\<close>, for a table whose \<^verbatim>\<open>AddEntry\<close> method is \<open>AddEntry\<close>: it returns
  the hash with the error of \<^verbatim>\<open>AddEntry\<close>.
\<close>

definition AddBytes :: "(bytes \<Rightarrow> bytes) \<Rightarrow> (reader \<Rightarrow> string \<Rightarrow> 's \<Rightarrow> error option \<times> 's) \<Rightarrow>
    bytes \<Rightarrow> 's \<Rightarrow> string \<times> error option \<times> 's" where
  "AddBytes sha1_Sum AddEntry data c =
     (let hash = sha1Bytes sha1_Sum data
      in (hash, AddEntry (bytes_NewBuffer data) hash c))"

subsection \<open>The in-memory table of the tests\<close>

text \<open>
  \<^verbatim>\<open>mockCasTable\<close>. A Go map is the list of its bindings, read with \<open>map_of\<close>,
  written with \<open>AList.update\<close> and \<open>AList.delete\<close>. The order in which a
  \<^verbatim>\<open>range\<close> loop visits the keys of a map is not fixed by the language: it is the
  parameter \<open>order\<close>, which rearranges the list of keys.
\<close>

record mockCasTable =
  entries :: "(string \<times> bytes) list"
  needFsck :: bool

definition mock_Enumerate :: "(string list \<Rightarrow> string list) \<Rightarrow> mockCasTable \<Rightarrow> CasEntry list" where
  "mock_Enumerate order m = map (\<lambda>k. \<lparr>Item = k, Error = None\<rparr>) (order (map fst (entries m)))"

definition mock_AddEntry :: "reader \<Rightarrow> string \<Rightarrow> mockCasTable \<Rightarrow> error option \<times> mockCasTable" where
  "mock_AddEntry source item m =
     (if map_of (entries m) item \<noteq> None then (Some ErrExist, m)
      else (case failure source of
              None \<Rightarrow> (None, m\<lparr>entries := AList.update item (delivered source) (entries m)\<rparr>)
            | Some err \<Rightarrow> (Some err, m)))"

definition mock_Open :: "string \<Rightarrow> mockCasTable \<Rightarrow> error + bytes" where
  "mock_Open item m =
     (case map_of (entries m) item of
        None \<Rightarrow> Inl (Errorf ''Missing: %s'')
      | Some data \<Rightarrow> Inr data)"

definition mock_Remove :: "string \<Rightarrow> mockCasTable \<Rightarrow> error option \<times> mockCasTable" where
  "mock_Remove item m =
     (if map_of (entries m) item = None then (Some ErrNotExist, m)
      else (None, m\<lparr>entries := AList.delete item (entries m)\<rparr>))"

definition mock_SetFsckBit :: "mockCasTable \<Rightarrow> mockCasTable" where
  "mock_SetFsckBit m = m\<lparr>needFsck := True\<rparr>"

definition mock_GetFsckBit :: "mockCasTable \<Rightarrow> bool" where
  "mock_GetFsckBit m = needFsck m"

definition mock_ClearFsckBit :: "mockCasTable \<Rightarrow> mockCasTable" where
  "mock_ClearFsckBit m = m\<lparr>needFsck := False\<rparr>"

subsection \<open>The garbage collector\<close>

text \<open>
  The collector works on the interface \<^verbatim>\<open>CasTable\<close>: a table is a state \<open>'s\<close> with
  the methods the collector calls. \<^verbatim>\<open>Enumerate\<close> returns the entries received from
  its channel and the state the pass leaves.
\<close>

record 's CasTable =
  Enumerate :: "'s \<Rightarrow> CasEntry list \<times> 's"
  Remove :: "string \<Rightarrow> 's \<Rightarrow> error option \<times> 's"
  SetFsckBit :: "'s \<Rightarrow> 's"

definition mockCasTable_impl :: "(string list \<Rightarrow> string list) \<Rightarrow> mockCasTable CasTable" where
  "mockCasTable_impl order =
     \<lparr>Enumerate = (\<lambda>m. (mock_Enumerate order m, m)),
      Remove = mock_Remove,
      SetFsckBit = mock_SetFsckBit\<rparr>"

text \<open>
  The types \<^verbatim>\<open>Entry\<close>, \<^verbatim>\<open>Node\<close> and the entry of the node enumeration are
  declared not among the sources at hand; the collector reads the fields
  \<^verbatim>\<open>entry.Sha1\<close>, \<^verbatim>\<open>entry.Files\<close> (a map from names to entries),
  \<^verbatim>\<open>item.Node.Entry\<close> and \<^verbatim>\<open>item.Error\<close>.
\<close>

datatype Entry = MkEntry (Sha1: string) (Files: "(string \<times> Entry) list")

record Node =
  Entry :: string

record NodeEntry =
  Node :: Node
  NodeError :: "error option"

text \<open>\<^verbatim>\<open>TagRecurse\<close>, with the loop over \<^verbatim>\<open>entry.Files\<close> as \<open>TagRecurse_Files\<close>.\<close>

fun TagRecurse :: "(string \<times> bool) list \<Rightarrow> Entry \<Rightarrow> (string \<times> bool) list"
  and TagRecurse_Files :: "(string \<times> bool) list \<Rightarrow> (string \<times> Entry) list \<Rightarrow> (string \<times> bool) list" where
  "TagRecurse marks (MkEntry sha1 files) =
     TagRecurse_Files (if sha1 \<noteq> [] then AList.update sha1 True marks else marks) files"
| "TagRecurse_Files marks [] = marks"
| "TagRecurse_Files marks ((name, i) # files) = TagRecurse_Files (TagRecurse marks i) files"

text \<open>
  The first loop of \<^verbatim>\<open>gcRun.main\<close>: every enumerated item enters the map
  (\<open>marks\<close>, the variable \<^verbatim>\<open>entries\<close> of the source) as not referenced; an error
  entry ends the run.
\<close>

fun markCasEntries :: "CasEntry list \<Rightarrow> (string \<times> bool) list \<Rightarrow> error + (string \<times> bool) list" where
  "markCasEntries [] marks = Inr marks"
| "markCasEntries (item # items) marks =
     (case Error item of
        Some err \<Rightarrow> Inl err
      | None \<Rightarrow> markCasEntries items (AList.update (Item item) False marks))"

text \<open>
  The second loop: for every node, the digest of its root entry is marked, the entry
  is loaded and its tree is marked. \<^verbatim>\<open>LoadEntry\<close> is not among the
  sources at hand and is a parameter: from the table and a digest to an entry or an error.
\<close>

fun markNodes :: "('s \<Rightarrow> string \<Rightarrow> error + Entry) \<Rightarrow> 's \<Rightarrow> NodeEntry list \<Rightarrow>
    (string \<times> bool) list \<Rightarrow> error + (string \<times> bool) list" where
  "markNodes LoadEntry cas [] marks = Inr marks"
| "markNodes LoadEntry cas (item # items) marks =
     (case NodeError item of
        Some err \<Rightarrow> Inl err
      | None \<Rightarrow>
          (case LoadEntry cas (Entry (Node item)) of
             Inl err \<Rightarrow> Inl err
           | Inr entry \<Rightarrow>
               markNodes LoadEntry cas items
                 (TagRecurse (AList.update (Entry (Node item)) True marks) entry)))"

text \<open>The orphans: the keys of the map that are still not referenced, in \<^verbatim>\<open>range\<close> order.\<close>

definition orphansOf :: "(string list \<Rightarrow> string list) \<Rightarrow> (string \<times> bool) list \<Rightarrow> string list" where
  "orphansOf order marks =
     filter (\<lambda>entry. map_of marks entry = Some False) (order (map fst marks))"

text \<open>The sweep: the first removal that fails sets the fsck bit and ends the run.\<close>

fun removeOrphans :: "'s CasTable \<Rightarrow> string list \<Rightarrow> 's \<Rightarrow> error option \<times> 's" where
  "removeOrphans I [] cas = (None, cas)"
| "removeOrphans I (orphan # orphans) cas =
     (case Remove I orphan cas of
        (Some err, cas') \<Rightarrow>
          (Some (Errorf ''Internal error while removing %s: %s''), SetFsckBit I cas')
      | (None, cas') \<Rightarrow> removeOrphans I orphans cas')"

text \<open>
  \<^verbatim>\<open>gcRun.main\<close>. \<open>parsed\<close> is the result of \<^verbatim>\<open>c.Parse\<close>, \<open>nodes\<close> is what
  the enumeration of the node table delivers. The result is the error of the run and
  the table as the run leaves it.
\<close>

definition gcRun_main :: "'s CasTable \<Rightarrow> ('s \<Rightarrow> string \<Rightarrow> error + Entry) \<Rightarrow>
    (string list \<Rightarrow> string list) \<Rightarrow> error option \<Rightarrow> 's \<Rightarrow> NodeEntry list \<Rightarrow> error option \<times> 's" where
  "gcRun_main I LoadEntry order parsed cas nodes =
     (case parsed of
        Some err \<Rightarrow> (Some err, cas)
      | None \<Rightarrow>
          (let (items, cas1) = Enumerate I cas in
           case markCasEntries items [] of
             Inl err \<Rightarrow> (Some (Errorf ''Failed enumerating the CAS table %s''), SetFsckBit I cas1)
           | Inr marks \<Rightarrow>
               (case markNodes LoadEntry cas1 nodes marks of
                  Inl err \<Rightarrow> (Some err, cas1)
                | Inr marks' \<Rightarrow> removeOrphans I (orphansOf order marks') cas1)))"

text \<open>
  Reachability, as the spec words it: the digests of an entry tree are the content
  digests of its nodes; the digests referenced by the node table are, for every node,
  the digest of its root entry and the digests of the tree loaded from it.
\<close>

primrec digests :: "Entry \<Rightarrow> string set" where
  "digests (MkEntry sha1 files) =
     (if sha1 = [] then {} else {sha1}) \<union> \<Union> (set (map snd (map (map_prod id digests) files)))"

definition marked :: "('s \<Rightarrow> string \<Rightarrow> error + Entry) \<Rightarrow> 's \<Rightarrow> NodeEntry list \<Rightarrow> string set" where
  "marked LoadEntry cas nodes =
     (\<Union>item \<in> set nodes. insert (Entry (Node item))
        (case LoadEntry cas (Entry (Node item)) of Inl err \<Rightarrow> {} | Inr entry \<Rightarrow> digests entry))"

text \<open>The mark phase fails at a node: its enumeration entry is an error, or its tree does not load.\<close>

definition nodeFails :: "('s \<Rightarrow> string \<Rightarrow> error + Entry) \<Rightarrow> 's \<Rightarrow> NodeEntry \<Rightarrow> bool" where
  "nodeFails LoadEntry cas item =
     (NodeError item \<noteq> None \<or> isl (LoadEntry cas (Entry (Node item))))"

subsection \<open>Opening a store\<close>

text \<open>
  \<^verbatim>\<open>prefixSpace\<close>: \<^verbatim>\<open>1 << (prefixLength*4)\<close> on a 64-bit \<^verbatim>\<open>int\<close>; a shift by 64
  bits or more gives 0.
\<close>

definition prefixSpace :: "nat \<Rightarrow> int" where
  "prefixSpace n = (if n = 0 then 0 else if n * 4 < 63 then 2 ^ (n * 4) else 0)"

text \<open>
  \<^verbatim>\<open>fmt.Sprintf("%0*x", width, i)\<close> for \<open>i < 16 ^ width\<close>, the numbers
  \<^verbatim>\<open>MakeCasTable\<close> formats: \<open>width\<close> hexadecimal digits, padded with zeros.
\<close>

fun Sprintf_0x :: "nat \<Rightarrow> nat \<Rightarrow> string" where
  "Sprintf_0x 0 i = []"
| "Sprintf_0x (Suc width) i = Sprintf_0x width (i div 16) @ [hextable ! (i mod 16)]"

definition path_IsAbs :: "string \<Rightarrow> bool" where
  "path_IsAbs p = (p \<noteq> [] \<and> hd p = CHR ''/'')"

text \<open>
  What \<^verbatim>\<open>MakeCasTable\<close> finds at the root directory: no such directory (then
  \<^verbatim>\<open>os.Mkdir\<close> of the store directory fails), a directory without a store (then the
  store directory and its \<open>16 ^ prefixLength\<close> shards are created), or a store, which is
  taken as it is.
\<close>

datatype rootDirState = NoDirectory | NoCas | HasCas casTable

definition MakeCasTable :: "string \<Rightarrow> rootDirState \<Rightarrow> error + casTable" where
  "MakeCasTable rootDir found =
     (if \<not> path_IsAbs rootDir then Inl (Errorf ''MakeCasTable(%s) is not valid'')
      else (case found of
              NoDirectory \<Rightarrow> Inl (Errorf ''MakeCasTable(%s): failed to create %s: %s'')
            | NoCas \<Rightarrow>
                Inr \<lparr>casDir = map (\<lambda>i. (Sprintf_0x prefixLength i, Dir []))
                                 [0..<nat (prefixSpace prefixLength)],
                     trash = None\<rparr>
            | HasCas c \<Rightarrow> Inr c))"

text \<open>
  \<^verbatim>\<open>CommonFlag\<close>. The surroundings of the process are a record: what
  \<^verbatim>\<open>filepath.Abs\<close> and \<^verbatim>\<open>os.MkdirAll\<close> return, and what is on disk at a root
  directory when \<^verbatim>\<open>MakeCasTable\<close> looks. \<open>Root\<close> is the global variable set by the
  flag \<^verbatim>\<open>-root\<close>.
\<close>

record environment =
  filepath_Abs :: "string \<Rightarrow> error + string"
  os_MkdirAll :: "string \<Rightarrow> error option"
  onDisk :: "string \<Rightarrow> rootDirState"

definition CommonFlag :: "environment \<Rightarrow> string \<Rightarrow> bool \<Rightarrow> bool \<Rightarrow> error + casTable" where
  "CommonFlag env Root createRoot bypassFsck =
     (if Root = [] then Inl (Errorf ''Must provide -root'')
      else (case filepath_Abs env Root of
              Inl err \<Rightarrow> Inl (Errorf ''Failed to find %s'')
            | Inr root \<Rightarrow>
                (if createRoot \<and> os_MkdirAll env root \<noteq> None \<and> \<not> os_IsExist (os_MkdirAll env root)
                 then Inl (Errorf ''Failed to create %s: %s'')
                 else (case MakeCasTable root (onDisk env root) of
                         Inl err \<Rightarrow> Inl err
                       | Inr cas \<Rightarrow>
                           (if WarnIfFsckIsNeeded cas \<and> \<not> bypassFsck
                            then Inl (Errorf ''Can't run if fsck is needed. Please run fsck first.'')
                            else Inr cas)))))"

subsection \<open>What a pass over the store finds and leaves\<close>

text \<open>The digests among the entries that \<^verbatim>\<open>Enumerate\<close> delivers.\<close>

definition yielded :: "CasEntry list \<Rightarrow> string list" where
  "yielded out = map Item (filter (\<lambda>e. Error e = None) out)"

text \<open>What the trash directory holds.\<close>

definition trashed :: "casTable \<Rightarrow> (string list \<times> node) list" where
  "trashed c = (case trash c of None \<Rightarrow> [] | Some t \<Rightarrow> t)"

text \<open>
  The structurally valid entries of the store, as digests: for every shard directory
  whose name matches the shard pattern, its items whose names match the item pattern.
\<close>

definition validBlobs :: "casTable \<Rightarrow> string list" where
  "validBlobs c =
     concat (map (\<lambda>(prefix, n).
        case n of
          File data \<Rightarrow> []
        | Dir subitems \<Rightarrow>
            if rePrefix prefix then map (\<lambda>item. prefix @ item) (filter reRest (map fst subitems))
            else [])
       (casDir c))"

text \<open>The same, for the shard of one name, looked up as the pass does.\<close>

definition shardBlobs :: "casTable \<Rightarrow> string \<Rightarrow> string list" where
  "shardBlobs c prefix =
     (if \<not> rePrefix prefix then []
      else (case map_of (casDir c) prefix of
              Some (Dir subitems) \<Rightarrow> map (\<lambda>item. prefix @ item) (filter reRest (map fst subitems))
            | _ \<Rightarrow> []))"

text \<open>
  A directory has no two entries of one name, and the entry of the trash directory is
  kept apart in \<open>trash\<close>.
\<close>

definition wellFormed :: "casTable \<Rightarrow> bool" where
  "wellFormed c = (distinct (map fst (casDir c)) \<and> TrashName \<notin> set (map fst (casDir c)))"

text \<open>
  The relative paths a pass moves to the trash: a name of the store directory that is
  not the trash directory's and fails the shard pattern, or an item of a shard that
  fails the item pattern.
\<close>

definition quarantinePath :: "string list \<Rightarrow> bool" where
  "quarantinePath relPath =
     ((\<exists>q. relPath = [q] \<and> q \<noteq> TrashName \<and> \<not> rePrefix q) \<or>
      (\<exists>q item. relPath = [q, item] \<and> rePrefix q \<and> \<not> reRest item))"

text \<open>
  A name of the store directory at which a pass finds something wrong: it is not the
  trash directory's name, and it fails the shard pattern, or it cannot be read as a
  directory, or one of its items fails the item pattern.
\<close>

definition anomalous :: "casTable \<Rightarrow> string \<Rightarrow> bool" where
  "anomalous c q =
     (q \<noteq> TrashName \<and>
      (\<not> rePrefix q \<or>
       (case map_of (casDir c) q of
          Some (Dir s) \<Rightarrow> \<exists>item \<in> set (map fst s). \<not> reRest item
        | other \<Rightarrow> True)))"

text \<open>
  \<open>n\<close> passes of \<^verbatim>\<open>Enumerate\<close>, one after the other, with what each delivers;
  \<open>IsInterrupted j\<close> is what \<^verbatim>\<open>IsInterrupted()\<close> answers during the \<open>j\<close>-th pass.
\<close>

fun enumeratePasses :: "(nat \<Rightarrow> nat \<Rightarrow> bool) \<Rightarrow> nat \<Rightarrow> casTable \<Rightarrow> CasEntry list list \<times> casTable" where
  "enumeratePasses IsInterrupted 0 c = ([], c)"
| "enumeratePasses IsInterrupted (Suc n) c =
     (let (out, c1) = casTable_Enumerate (IsInterrupted 0) c;
          (outs, c2) = enumeratePasses (\<lambda>j. IsInterrupted (Suc j)) n c1
      in (out # outs, c2))"

section \<open>Properties\<close>

subsection \<open>File paths, AddEntry and Open\<close>

lemma filePath_None_iff: "filePath hash = None \<longleftrightarrow> \<not> validPath hash"
  by (simp add: filePath_def)

lemma AddEntry_keeps_Open:
  "casTable_Open h c = Inr n \<Longrightarrow> casTable_Open h (snd (casTable_AddEntry source h' c)) = Inr n"
  by (auto simp: casTable_Open_def casTable_AddEntry_def update_conv'
      split: option.splits node.splits if_splits prod.splits)

lemma addEntries_keeps_Open:
  "casTable_Open h c = Inr n \<Longrightarrow> casTable_Open h (addEntries calls c) = Inr n"
  by (induction calls arbitrary: c) (auto simp: AddEntry_keeps_Open)

lemma AddEntry_exists:
  "casTable_Open h c = Inr n \<Longrightarrow> casTable_AddEntry source h c = (Some ErrExist, c)"
  by (auto simp: casTable_Open_def casTable_AddEntry_def split: option.splits node.splits)

lemma AddEntry_fresh:
  assumes "filePath hash = Some (prefix, item)"
    and "map_of (casDir c) prefix = Some (Dir subitems)"
    and "map_of subitems item = None"
  shows "fst (casTable_AddEntry source hash c) = failure source"
    and "casTable_Open hash (snd (casTable_AddEntry source hash c)) = Inr (File (delivered source))"
  using assms by (auto simp: casTable_Open_def casTable_AddEntry_def update_conv' map_add_def)

lemma AddEntry_success:
  assumes "fst (casTable_AddEntry source hash c) = None"
  shows "\<exists>subitems. validPath hash \<and> failure source = None \<and>
     map_of (casDir c) (take prefixLength hash) = Some (Dir subitems) \<and>
     map_of subitems (drop prefixLength hash) = None \<and>
     snd (casTable_AddEntry source hash c) =
       c\<lparr>casDir := AList.update (take prefixLength hash)
            (Dir (subitems @ [(drop prefixLength hash, File (delivered source))])) (casDir c)\<rparr>"
  using assms
  by (auto simp: casTable_AddEntry_def filePath_def split: option.splits node.splits if_splits)

lemma AddEntry_then_Open:
  assumes "fst (casTable_AddEntry source hash c) = None"
  shows "casTable_Open hash (snd (casTable_AddEntry source hash c)) = Inr (File (delivered source))"
proof -
  from AddEntry_success [OF assms] obtain subitems where
    "validPath hash"
    "map_of (casDir c) (take prefixLength hash) = Some (Dir subitems)"
    "map_of subitems (drop prefixLength hash) = None"
    by blast
  then show ?thesis
    using AddEntry_fresh(2) [of hash "take prefixLength hash" "drop prefixLength hash" c subitems source]
    by (simp add: filePath_def)
qed

subsection \<open>Digests\<close>

lemma hextable_hexChar: "n < 16 \<Longrightarrow> hexChar (hextable ! n)"
proof -
  assume n: "n < 16"
  have "list_all hexChar hextable"
    by (simp add: hextable_def hexChar_def)
  moreover have "length hextable = 16"
    by (simp add: hextable_def)
  ultimately show ?thesis
    using n by (simp add: list_all_length)
qed

lemma hex_EncodeToString_length: "length (hex_EncodeToString src) = 2 * length src"
  by (induction src) (simp_all add: hex_EncodeToString_def)

lemma hex_EncodeToString_hexChar: "list_all hexChar (hex_EncodeToString src)"
proof (induction src)
  case Nil
  then show ?case by (simp add: hex_EncodeToString_def)
next
  case (Cons v src)
  have "(of_char v :: nat) mod 256 < 256" by (rule mod_less_divisor) simp
  then have "(of_char v :: nat) < 256" by simp
  then have "(of_char v :: nat) div 16 < 16" by arith
  moreover have "(of_char v :: nat) mod 16 < 16" by simp
  ultimately show ?case using Cons
    by (simp add: hex_EncodeToString_def hextable_hexChar)
qed

lemma sha1Bytes_validPath:
  "length (sha1_Sum content) = 20 \<Longrightarrow> validPath (sha1Bytes sha1_Sum content)"
  by (simp add: validPath_def hexMatch_def hashLength_def sha1Bytes_def
      hex_EncodeToString_length hex_EncodeToString_hexChar)

subsection \<open>Open on a malformed digest\<close>

text \<open>
  Claim C7, as amended. \<^verbatim>\<open>Open\<close> on a string that does not match the digest pattern
  \<^verbatim>\<open>^[a-f0-9]{40}$\<close> fails with \<^verbatim>\<open>os.ErrInvalid\<close>, whatever the store holds; this is
  not the not-found condition (\<^verbatim>\<open>os.IsNotExist\<close> does not hold of it), which
  \<^verbatim>\<open>Open\<close> reports for a well-formed digest whose file is missing. No file is opened or
  created: \<^verbatim>\<open>Open\<close> returns before it reaches \<^verbatim>\<open>os.Open\<close>, and the store is not
  changed by it.
\<close>

theorem Open_invalid_digest_is_ErrInvalid:
  "\<not> validPath hash \<Longrightarrow>
   casTable_Open hash c = Inl ErrInvalid \<and> \<not> os_IsNotExist (Some ErrInvalid)"
  by (simp add: casTable_Open_def filePath_def os_IsNotExist_def)

text \<open>The amended claim at the string \<^verbatim>\<open>0\<close>, which \<^verbatim>\<open>testCasTableImpl\<close> opens.\<close>

theorem Open_invalid_digest_is_ErrInvalid_witness:
  "\<not> validPath ''0'' \<and>
   casTable_Open ''0'' \<lparr>casDir = [], trash = None\<rparr> = Inl ErrInvalid \<and>
   \<not> os_IsNotExist (Some ErrInvalid)"
  using Open_invalid_digest_is_ErrInvalid [of "''0''" "\<lparr>casDir = [], trash = None\<rparr>"]
  by (simp add: validPath_def hexMatch_def hashLength_def)

text \<open>
  The claim as first stated, that the failure is the not-found condition of a missing
  file, does not hold at the string \<^verbatim>\<open>not-a-digest\<close> on an empty store.
\<close>

theorem Open_invalid_digest_not_found_counterexample:
  "\<not> validPath ''not-a-digest'' \<and>
   casTable_Open ''not-a-digest'' \<lparr>casDir = [], trash = None\<rparr> = Inl ErrInvalid \<and>
   \<not> os_IsNotExist (Some ErrInvalid)"
  by (simp add: validPath_def hexMatch_def hashLength_def casTable_Open_def filePath_def
      os_IsNotExist_def)

subsection \<open>A failed write\<close>

text \<open>
  Claim C9. \<^verbatim>\<open>AddEntry\<close> is not atomic on a failed write. For a fresh digest (a valid
  hash whose shard directory exists and holds no file of that name), when the copy from
  the source fails, \<^verbatim>\<open>AddEntry\<close> returns the copy error and the file with the bytes
  written so far stays in the store; after any further run of \<^verbatim>\<open>AddEntry\<close> calls the
  file still holds those bytes, and every later \<^verbatim>\<open>AddEntry\<close> for the digest reports
  that the file exists and leaves the store as it is.
\<close>

theorem AddEntry_failed_copy_leaves_partial_file:
  assumes "filePath hash = Some (prefix, item)"
    and "map_of (casDir c) prefix = Some (Dir subitems)"
    and "map_of subitems item = None"
    and "failure source = Some err"
  shows "fst (casTable_AddEntry source hash c) = Some err \<and>
         casTable_Open hash (snd (casTable_AddEntry source hash c)) = Inr (File (delivered source)) \<and>
         casTable_Open hash (addEntries calls (snd (casTable_AddEntry source hash c))) =
           Inr (File (delivered source)) \<and>
         casTable_AddEntry later hash (addEntries calls (snd (casTable_AddEntry source hash c))) =
           (Some ErrExist, addEntries calls (snd (casTable_AddEntry source hash c)))"
proof -
  let ?c1 = "snd (casTable_AddEntry source hash c)"
  have a: "fst (casTable_AddEntry source hash c) = Some err"
    using AddEntry_fresh(1) [OF assms(1-3)] assms(4) by simp
  have b: "casTable_Open hash ?c1 = Inr (File (delivered source))"
    using AddEntry_fresh(2) [OF assms(1-3)] .
  have d: "casTable_Open hash (addEntries calls ?c1) = Inr (File (delivered source))"
    using addEntries_keeps_Open [OF b] .
  from a b d AddEntry_exists [OF d] show ?thesis by simp
qed

text \<open>A copy of \<^verbatim>\<open>content1\<close> that breaks after four bytes, then the whole content.\<close>

theorem AddEntry_failed_copy_leaves_partial_file_witness:
  "filePath ''105e7a844ac896f68e6f7dc0a9389d3e9be95abc'' =
     Some (''105'', ''e7a844ac896f68e6f7dc0a9389d3e9be95abc'') \<and>
   map_of (casDir \<lparr>casDir = [(''105'', Dir [])], trash = None\<rparr>) ''105'' = Some (Dir []) \<and>
   map_of ([] :: (string \<times> node) list) ''e7a844ac896f68e6f7dc0a9389d3e9be95abc'' = None \<and>
   failure \<lparr>delivered = ''cont'', failure = Some (ReadError ''unexpected EOF'')\<rparr> =
     Some (ReadError ''unexpected EOF'') \<and>
   casTable_Open ''105e7a844ac896f68e6f7dc0a9389d3e9be95abc''
     (addEntries [(bytes_NewBuffer ''content1'', ''105e7a844ac896f68e6f7dc0a9389d3e9be95abc'')]
       (snd (casTable_AddEntry \<lparr>delivered = ''cont'', failure = Some (ReadError ''unexpected EOF'')\<rparr>
          ''105e7a844ac896f68e6f7dc0a9389d3e9be95abc''
          \<lparr>casDir = [(''105'', Dir [])], trash = None\<rparr>))) = Inr (File ''cont'')"
  using AddEntry_failed_copy_leaves_partial_file
    [of "''105e7a844ac896f68e6f7dc0a9389d3e9be95abc''" "''105''"
      "''e7a844ac896f68e6f7dc0a9389d3e9be95abc''"
      "\<lparr>casDir = [(''105'', Dir [])], trash = None\<rparr>" "[]"
      "\<lparr>delivered = ''cont'', failure = Some (ReadError ''unexpected EOF'')\<rparr>"
      "ReadError ''unexpected EOF''"
      "[(bytes_NewBuffer ''content1'', ''105e7a844ac896f68e6f7dc0a9389d3e9be95abc'')]"]
  by (simp add: filePath_def validPath_def hexMatch_def hashLength_def hexChar_def
      prefixLength_def splitAt_def)

subsection \<open>Round trip\<close>

text \<open>
  Claim C6. Round trip: when \<^verbatim>\<open>AddEntry\<close> has stored a source under a digest,
  \<^verbatim>\<open>Open\<close> of the digest succeeds and reading the handle gives the bytes of the
  source; \<^verbatim>\<open>Remove\<close> of the digest then succeeds, after it \<^verbatim>\<open>Open\<close> fails with the
  not-found condition, and a second \<^verbatim>\<open>Remove\<close> fails and changes nothing.
\<close>

theorem AddEntry_Open_Remove_roundtrip:
  assumes "fst (casTable_AddEntry source hash c) = None"
  shows "casTable_Open hash (snd (casTable_AddEntry source hash c)) = Inr (File (delivered source)) \<and>
         ioutil_ReadAll (File (delivered source)) = Inr (delivered source) \<and>
         fst (casTable_Remove hash (snd (casTable_AddEntry source hash c))) = None \<and>
         casTable_Open hash (snd (casTable_Remove hash (snd (casTable_AddEntry source hash c)))) =
           Inl ErrNotExist \<and>
         os_IsNotExist (Some ErrNotExist) \<and>
         casTable_Remove hash (snd (casTable_Remove hash (snd (casTable_AddEntry source hash c)))) =
           (Some ErrNotExist, snd (casTable_Remove hash (snd (casTable_AddEntry source hash c))))"
proof -
  from AddEntry_success [OF assms] obtain subitems where
    v: "validPath hash"
    and n: "map_of subitems (drop prefixLength hash) = None"
    and c1: "snd (casTable_AddEntry source hash c) =
       c\<lparr>casDir := AList.update (take prefixLength hash)
            (Dir (subitems @ [(drop prefixLength hash, File (delivered source))])) (casDir c)\<rparr>"
    by blast
  show ?thesis
    unfolding c1 using v n
    by (simp add: casTable_Open_def casTable_Remove_def filePath_def update_conv' delete_conv'
        os_IsNotExist_def map_add_def)
qed

text \<open>The round trip of \<^verbatim>\<open>testCasTableImpl\<close> on the content \<^verbatim>\<open>content1\<close>.\<close>

theorem AddEntry_Open_Remove_roundtrip_witness:
  "fst (casTable_AddEntry (bytes_NewBuffer ''content1'') ''105e7a844ac896f68e6f7dc0a9389d3e9be95abc''
     \<lparr>casDir = [(''105'', Dir [])], trash = None\<rparr>) = None \<and>
   casTable_Open ''105e7a844ac896f68e6f7dc0a9389d3e9be95abc''
     (snd (casTable_AddEntry (bytes_NewBuffer ''content1'') ''105e7a844ac896f68e6f7dc0a9389d3e9be95abc''
        \<lparr>casDir = [(''105'', Dir [])], trash = None\<rparr>)) = Inr (File ''content1'') \<and>
   casTable_Open ''105e7a844ac896f68e6f7dc0a9389d3e9be95abc''
     (snd (casTable_Remove ''105e7a844ac896f68e6f7dc0a9389d3e9be95abc''
       (snd (casTable_AddEntry (bytes_NewBuffer ''content1'') ''105e7a844ac896f68e6f7dc0a9389d3e9be95abc''
          \<lparr>casDir = [(''105'', Dir [])], trash = None\<rparr>)))) = Inl ErrNotExist"
  using AddEntry_Open_Remove_roundtrip
    [of "bytes_NewBuffer ''content1''" "''105e7a844ac896f68e6f7dc0a9389d3e9be95abc''"
      "\<lparr>casDir = [(''105'', Dir [])], trash = None\<rparr>"]
  by (simp add: casTable_AddEntry_def bytes_NewBuffer_def filePath_def validPath_def hexMatch_def
      hashLength_def hexChar_def prefixLength_def splitAt_def)

subsection \<open>Deduplication\<close>

text \<open>
  Claim C5. Equal byte sequences have equal digests. When the first \<^verbatim>\<open>AddBytes\<close> has
  stored the content, the second \<^verbatim>\<open>AddBytes\<close> of the same content returns the same
  digest and fails with the condition \<^verbatim>\<open>os.IsExist\<close>; it leaves the store as it
  was, so the stored bytes are not overwritten and are still the content; the shard
  directory holds exactly one file under the digest's name.
\<close>

theorem AddBytes_same_content_stored_once:
  assumes "b1 = b2"
    and "fst (snd (AddBytes sha1_Sum casTable_AddEntry b1 c)) = None"
  shows "sha1Bytes sha1_Sum b1 = sha1Bytes sha1_Sum b2 \<and>
         fst (AddBytes sha1_Sum casTable_AddEntry b2 (snd (snd (AddBytes sha1_Sum casTable_AddEntry b1 c)))) =
           fst (AddBytes sha1_Sum casTable_AddEntry b1 c) \<and>
         os_IsExist (fst (snd (AddBytes sha1_Sum casTable_AddEntry b2
            (snd (snd (AddBytes sha1_Sum casTable_AddEntry b1 c)))))) \<and>
         snd (snd (AddBytes sha1_Sum casTable_AddEntry b2 (snd (snd (AddBytes sha1_Sum casTable_AddEntry b1 c))))) =
           snd (snd (AddBytes sha1_Sum casTable_AddEntry b1 c)) \<and>
         casTable_Open (sha1Bytes sha1_Sum b1) (snd (snd (AddBytes sha1_Sum casTable_AddEntry b1 c))) =
           Inr (File b1) \<and>
         (\<exists>subitems. map_of (casDir (snd (snd (AddBytes sha1_Sum casTable_AddEntry b1 c))))
              (take prefixLength (sha1Bytes sha1_Sum b1)) = Some (Dir subitems) \<and>
            length (filter (\<lambda>(name, n). name = drop prefixLength (sha1Bytes sha1_Sum b1)) subitems) = 1)"
proof -
  let ?h = "sha1Bytes sha1_Sum b1"
  let ?src = "bytes_NewBuffer b1"
  let ?c1 = "snd (casTable_AddEntry ?src ?h c)"
  have ok: "fst (casTable_AddEntry ?src ?h c) = None"
    using assms(2) by (simp add: AddBytes_def Let_def)
  from AddEntry_then_Open [OF ok]
  have op: "casTable_Open ?h ?c1 = Inr (File b1)"
    by (simp add: bytes_NewBuffer_def)
  from AddEntry_exists [OF op, of ?src]
  have ex: "casTable_AddEntry ?src ?h ?c1 = (Some ErrExist, ?c1)" .
  from AddEntry_success [OF ok] obtain subitems where
    n: "map_of subitems (drop prefixLength ?h) = None"
    and c1: "?c1 = c\<lparr>casDir := AList.update (take prefixLength ?h)
            (Dir (subitems @ [(drop prefixLength ?h, File (delivered ?src))])) (casDir c)\<rparr>"
    by blast
  from n have "filter (\<lambda>(name, n). name = drop prefixLength ?h) subitems = []"
    by (auto simp: filter_empty_conv map_of_eq_None_iff) force
  then have one: "\<exists>subitems'. map_of (casDir ?c1) (take prefixLength ?h) = Some (Dir subitems') \<and>
      length (filter (\<lambda>(name, n). name = drop prefixLength ?h) subitems') = 1"
    unfolding c1 by (simp add: update_conv')
  show ?thesis
    using assms(1) op ex one by (simp add: AddBytes_def Let_def os_IsExist_def)
qed

text \<open>
  \<^verbatim>\<open>content1\<close> stored twice in a store with the shard \<^verbatim>\<open>105\<close>; the checksum is
  that of SHA-1 on \<^verbatim>\<open>content1\<close>.
\<close>

theorem AddBytes_same_content_stored_once_witness:
  "''content1'' = ''content1'' \<and>
   fst (snd (AddBytes (\<lambda>content. map char_of [16, 94, 122, 132, 74, 200, 150, 246, 142, 111, 125,
            192, 169, 56, 157, 62, 155, 233, 90, 188 :: nat])
          casTable_AddEntry ''content1'' \<lparr>casDir = [(''105'', Dir [])], trash = None\<rparr>)) = None \<and>
   sha1Bytes (\<lambda>content. map char_of [16, 94, 122, 132, 74, 200, 150, 246, 142, 111, 125,
            192, 169, 56, 157, 62, 155, 233, 90, 188 :: nat]) ''content1'' =
     ''105e7a844ac896f68e6f7dc0a9389d3e9be95abc'' \<and>
   os_IsExist (fst (snd (AddBytes (\<lambda>content. map char_of [16, 94, 122, 132, 74, 200, 150, 246, 142, 111, 125,
            192, 169, 56, 157, 62, 155, 233, 90, 188 :: nat])
          casTable_AddEntry ''content1''
          (snd (snd (AddBytes (\<lambda>content. map char_of [16, 94, 122, 132, 74, 200, 150, 246, 142, 111, 125,
            192, 169, 56, 157, 62, 155, 233, 90, 188 :: nat])
          casTable_AddEntry ''content1'' \<lparr>casDir = [(''105'', Dir [])], trash = None\<rparr>))))))"
  using AddBytes_same_content_stored_once
    [of "''content1''" "''content1''"
      "\<lambda>content. map char_of [16, 94, 122, 132, 74, 200, 150, 246, 142, 111, 125,
            192, 169, 56, 157, 62, 155, 233, 90, 188 :: nat]"
      "\<lparr>casDir = [(''105'', Dir [])], trash = None\<rparr>"]
  by (simp add: AddBytes_def sha1Bytes_def hex_EncodeToString_def hextable_def bytes_NewBuffer_def
      casTable_AddEntry_def filePath_def validPath_def hexMatch_def hashLength_def hexChar_def
      prefixLength_def splitAt_def os_IsExist_def)

subsection \<open>The garbage collector\<close>

lemma TagRecurse_map_of:
  "map_of (TagRecurse marks entry) = (\<lambda>d. if d \<in> digests entry then Some True else map_of marks d)"
  "map_of (TagRecurse_Files marks files) =
     (\<lambda>d. if d \<in> \<Union> (digests ` snd ` set files) then Some True else map_of marks d)"
  by (induction marks entry and marks files rule: TagRecurse_TagRecurse_Files.induct)
     (auto simp: update_conv' fun_eq_iff)

lemma TagRecurse_distinct:
  "distinct (map fst marks) \<Longrightarrow> distinct (map fst (TagRecurse marks entry))"
  "distinct (map fst marks) \<Longrightarrow> distinct (map fst (TagRecurse_Files marks files))"
  by (induction marks entry and marks files rule: TagRecurse_TagRecurse_Files.induct)
     (auto simp: distinct_update)


lemma markCasEntries_ok:
  "\<forall>item \<in> set items. Error item = None \<Longrightarrow>
   \<exists>marks'. markCasEntries items marks = Inr marks' \<and>
     map_of marks' = (\<lambda>d. if d \<in> Item ` set items then Some False else map_of marks d) \<and>
     (distinct (map fst marks) \<longrightarrow> distinct (map fst marks'))"
proof (induction items arbitrary: marks)
  case Nil
  then show ?case by simp
next
  case (Cons item items)
  from Cons.prems have ok: "\<forall>item \<in> set items. Error item = None" and e: "Error item = None"
    by simp_all
  from Cons.IH [OF ok, of "AList.update (Item item) False marks"] e
  show ?case by (auto simp: update_conv' distinct_update fun_eq_iff)
qed

lemma markCasEntries_error:
  "\<exists>item \<in> set items. Error item \<noteq> None \<Longrightarrow> \<exists>err. markCasEntries items marks = Inl err"
  by (induction items arbitrary: marks) (auto split: option.splits)

lemma markNodes_error:
  "\<exists>item \<in> set nodes. nodeFails LoadEntry cas item \<Longrightarrow>
   \<exists>err. markNodes LoadEntry cas nodes marks = Inl err"
proof (induction nodes arbitrary: marks)
  case Nil
  then show ?case by simp
next
  case (Cons item nodes)
  show ?case
  proof (cases "nodeFails LoadEntry cas item")
    case True
    then show ?thesis
      by (auto simp: nodeFails_def isl_def split: option.splits sum.splits)
  next
    case False
    with Cons.prems have "\<exists>item \<in> set nodes. nodeFails LoadEntry cas item" by auto
    from Cons.IH [OF this] show ?thesis
      by (auto split: option.splits sum.splits)
  qed
qed

lemma markNodes_ok:
  "\<forall>item \<in> set nodes. \<not> nodeFails LoadEntry cas item \<Longrightarrow>
   \<exists>marks'. markNodes LoadEntry cas nodes marks = Inr marks' \<and>
     map_of marks' = (\<lambda>d. if d \<in> marked LoadEntry cas nodes then Some True else map_of marks d) \<and>
     (distinct (map fst marks) \<longrightarrow> distinct (map fst marks'))"
proof (induction nodes arbitrary: marks)
  case Nil
  then show ?case by (simp add: marked_def)
next
  case (Cons item nodes)
  from Cons.prems have ok: "\<forall>item \<in> set nodes. \<not> nodeFails LoadEntry cas item"
    and e: "NodeError item = None" and l: "\<not> isl (LoadEntry cas (Entry (Node item)))"
    by (simp_all add: nodeFails_def)
  from l obtain entry where entry: "LoadEntry cas (Entry (Node item)) = Inr entry"
    by (cases "LoadEntry cas (Entry (Node item))") auto
  let ?m = "TagRecurse (AList.update (Entry (Node item)) True marks) entry"
  from Cons.IH [OF ok, of ?m] obtain marks' where
    r: "markNodes LoadEntry cas nodes ?m = Inr marks'"
    and m: "map_of marks' = (\<lambda>d. if d \<in> marked LoadEntry cas nodes then Some True else map_of ?m d)"
    and d: "distinct (map fst ?m) \<longrightarrow> distinct (map fst marks')"
    by blast
  have "markNodes LoadEntry cas (item # nodes) marks = Inr marks'"
    using e entry r by simp
  moreover have "map_of marks' =
      (\<lambda>d. if d \<in> marked LoadEntry cas (item # nodes) then Some True else map_of marks d)"
    using m entry by (auto simp: marked_def TagRecurse_map_of update_conv' fun_eq_iff)
  moreover have "distinct (map fst marks) \<longrightarrow> distinct (map fst marks')"
    using d by (simp add: TagRecurse_distinct distinct_update)
  ultimately show ?case by blast
qed

lemma orphansOf_set:
  assumes "\<forall>ks. mset (order ks) = mset ks"
  shows "set (orphansOf order marks) = {d. map_of marks d = Some False}"
proof -
  have "set (order (map fst marks)) = set (map fst marks)"
    using assms by (metis set_mset_mset)
  then show ?thesis
    by (auto simp: orphansOf_def dest: map_of_SomeD) (metis fst_conv image_eqI map_of_SomeD)
qed

lemma orphansOf_distinct:
  assumes "\<forall>ks. mset (order ks) = mset ks" and "distinct (map fst marks)"
  shows "distinct (orphansOf order marks)"
proof -
  have "distinct (order (map fst marks))"
    using assms by (metis mset_eq_imp_distinct_iff)
  then show ?thesis by (simp add: orphansOf_def)
qed

lemma mock_removeOrphans:
  "distinct orphans \<Longrightarrow> \<forall>d \<in> set orphans. map_of (entries m) d \<noteq> None \<Longrightarrow>
   \<exists>m'. removeOrphans (mockCasTable_impl order) orphans m = (None, m') \<and>
     needFsck m' = needFsck m \<and>
     map_of (entries m') = (\<lambda>d. if d \<in> set orphans then None else map_of (entries m) d)"
proof (induction orphans arbitrary: m)
  case Nil
  then show ?case by simp
next
  case (Cons orphan orphans)
  let ?m1 = "m\<lparr>entries := AList.delete orphan (entries m)\<rparr>"
  have r: "Remove (mockCasTable_impl order) orphan m = (None, ?m1)"
    using Cons.prems by (simp add: mockCasTable_impl_def mock_Remove_def)
  have "\<forall>d \<in> set orphans. map_of (entries ?m1) d \<noteq> None"
    using Cons.prems by (auto simp: delete_conv')
  with Cons.IH [of ?m1] Cons.prems obtain m' where
    "removeOrphans (mockCasTable_impl order) orphans ?m1 = (None, m')"
    "needFsck m' = needFsck ?m1"
    "map_of (entries m') = (\<lambda>d. if d \<in> set orphans then None else map_of (entries ?m1) d)"
    by auto
  then show ?case using r by (auto simp: delete_conv' fun_eq_iff)
qed


lemma mock_gc_run:
  assumes perm: "\<forall>ks. mset (order ks) = mset ks"
    and ok: "\<forall>item \<in> set nodes. \<not> nodeFails LoadEntry cas item"
  shows "\<exists>cas'. gcRun_main (mockCasTable_impl order) LoadEntry order None cas nodes = (None, cas') \<and>
     needFsck cas' = needFsck cas \<and>
     map_of (entries cas') =
       (\<lambda>d. if d \<in> marked LoadEntry cas nodes then map_of (entries cas) d else None)"
proof -
  let ?items = "mock_Enumerate order cas"
  have keys: "Item ` set ?items = fst ` set (entries cas)"
  proof -
    have "set (order (map fst (entries cas))) = set (map fst (entries cas))"
      using perm by (metis set_mset_mset)
    then show ?thesis by (simp add: mock_Enumerate_def image_image)
  qed
  have "\<forall>item \<in> set ?items. Error item = None"
    by (simp add: mock_Enumerate_def)
  from markCasEntries_ok [OF this, of "[]"]
  have "\<exists>marks. markCasEntries ?items [] = Inr marks \<and>
      map_of marks = (\<lambda>d. if d \<in> Item ` set ?items then Some False else None) \<and>
      distinct (map fst marks)"
    by (elim exE conjE, intro exI conjI) (simp_all add: fun_eq_iff)
  then obtain marks where
    m1: "markCasEntries ?items [] = Inr marks"
    and m2: "map_of marks = (\<lambda>d. if d \<in> Item ` set ?items then Some False else None)"
    and m3: "distinct (map fst marks)"
    by blast
  from markNodes_ok [OF ok, of marks] obtain marks' where
    n1: "markNodes LoadEntry cas nodes marks = Inr marks'"
    and n2: "map_of marks' =
      (\<lambda>d. if d \<in> marked LoadEntry cas nodes then Some True else map_of marks d)"
    and n3': "distinct (map fst marks) \<longrightarrow> distinct (map fst marks')"
    by blast
  from n3' m3 have n3: "distinct (map fst marks')" by simp
  let ?orphans = "orphansOf order marks'"
  have o1: "set ?orphans = {d. d \<notin> marked LoadEntry cas nodes \<and> d \<in> fst ` set (entries cas)}"
    using orphansOf_set [OF perm, of marks'] n2 m2 keys by auto
  have o2: "distinct ?orphans"
    using orphansOf_distinct [OF perm n3] .
  have "\<forall>d \<in> set ?orphans. map_of (entries cas) d \<noteq> None"
    using o1 by (auto simp: map_of_eq_None_iff)
  from mock_removeOrphans [OF o2 this, of order] obtain cas' where
    r1: "removeOrphans (mockCasTable_impl order) ?orphans cas = (None, cas')"
    and r2: "needFsck cas' = needFsck cas"
    and r3: "map_of (entries cas') = (\<lambda>d. if d \<in> set ?orphans then None else map_of (entries cas) d)"
    by auto
  have "gcRun_main (mockCasTable_impl order) LoadEntry order None cas nodes = (None, cas')"
    using m1 n1 r1 by (simp add: gcRun_main_def mockCasTable_impl_def)
  moreover have "map_of (entries cas') =
      (\<lambda>d. if d \<in> marked LoadEntry cas nodes then map_of (entries cas) d else None)"
    using r3 o1 by (auto simp: fun_eq_iff map_of_eq_None_iff)
  ultimately show ?thesis using r2 by blast
qed

lemma gc_mark_failure:
  assumes "Enumerate I cas = (items, cas1)"
    and "\<exists>item \<in> set nodes. nodeFails LoadEntry cas1 item"
  shows "\<exists>err. gcRun_main I LoadEntry order None cas nodes = (Some err, cas1) \<or>
               gcRun_main I LoadEntry order None cas nodes = (Some err, SetFsckBit I cas1)"
proof (cases "markCasEntries items []")
  case (Inl err)
  then show ?thesis using assms(1) by (auto simp: gcRun_main_def)
next
  case (Inr marks)
  from markNodes_error [OF assms(2), of marks] obtain err where
    "markNodes LoadEntry cas1 nodes marks = Inl err" by blast
  then show ?thesis using assms(1) Inr by (auto simp: gcRun_main_def)
qed

text \<open>
  Claim C1. A run of the collector on the in-memory table, for every \<^verbatim>\<open>range\<close>
  order. The run ends without error exactly when no node fails to enumerate or to load:
  a marked digest that the table does not hold is no error. A run without error removes
  exactly the enumerated digests that are not marked: afterwards the table holds, under
  every marked digest, what it held before, and nothing under any other digest. In every
  run a marked digest keeps its blob, and a digest that the table did not hold (marked or
  not) is not created.
\<close>

theorem gc_removes_exactly_unmarked_enumerated:
  assumes "\<forall>ks. mset (order ks) = mset ks"
  shows "(fst (gcRun_main (mockCasTable_impl order) LoadEntry order None cas nodes) = None \<longleftrightarrow>
            (\<forall>item \<in> set nodes. \<not> nodeFails LoadEntry cas item)) \<and>
         (fst (gcRun_main (mockCasTable_impl order) LoadEntry order None cas nodes) = None \<longrightarrow>
            (\<forall>d. map_of (entries (snd (gcRun_main (mockCasTable_impl order) LoadEntry order None cas nodes))) d =
               (if d \<in> marked LoadEntry cas nodes then map_of (entries cas) d else None))) \<and>
         (\<forall>d. d \<in> marked LoadEntry cas nodes \<or> map_of (entries cas) d = None \<longrightarrow>
            map_of (entries (snd (gcRun_main (mockCasTable_impl order) LoadEntry order None cas nodes))) d =
              map_of (entries cas) d)"
proof (cases "\<forall>item \<in> set nodes. \<not> nodeFails LoadEntry cas item")
  case True
  from mock_gc_run [OF assms True] obtain cas' where
    "gcRun_main (mockCasTable_impl order) LoadEntry order None cas nodes = (None, cas')"
    "map_of (entries cas') =
       (\<lambda>d. if d \<in> marked LoadEntry cas nodes then map_of (entries cas) d else None)"
    by blast
  then show ?thesis using True by auto
next
  case False
  have e: "Enumerate (mockCasTable_impl order) cas = (mock_Enumerate order cas, cas)"
    by (simp add: mockCasTable_impl_def)
  from False have "\<exists>item \<in> set nodes. nodeFails LoadEntry cas item" by blast
  from gc_mark_failure [OF e this, of order] obtain err where
    "gcRun_main (mockCasTable_impl order) LoadEntry order None cas nodes = (Some err, cas) \<or>
     gcRun_main (mockCasTable_impl order) LoadEntry order None cas nodes =
       (Some err, SetFsckBit (mockCasTable_impl order) cas)"
    by blast
  then show ?thesis using False
    by (auto simp: mockCasTable_impl_def mock_SetFsckBit_def)
qed

text \<open>
  The tree of \<^verbatim>\<open>TestGc\<close> under one node, with an orphan \<^verbatim>\<open>x1\<close> in the table and a
  leaf \<^verbatim>\<open>c3\<close> that the table does not hold: the orphan goes, the dangling leaf is
  neither created nor reported.
\<close>

theorem gc_removes_exactly_unmarked_enumerated_witness:
  "(\<forall>ks :: string list. mset (rev ks) = mset ks) \<and>
   gcRun_main (mockCasTable_impl rev)
     (\<lambda>cas digest. if digest = ''e1''
        then Inr (MkEntry [] [(''file1'', MkEntry ''c1'' []),
               (''dir1'', MkEntry [] [(''dir2'', MkEntry [] [(''file2'', MkEntry ''c2'' [])])]),
               (''lost'', MkEntry ''c3'' [])])
        else Inl (Errorf ''Missing: %s''))
     rev None
     \<lparr>entries = [(''e1'', ''tree''), (''c1'', ''content1''), (''x1'', ''orphan''), (''c2'', ''content2'')],
      needFsck = False\<rparr>
     [\<lparr>Node = \<lparr>Entry = ''e1''\<rparr>, NodeError = None\<rparr>] =
   (None, \<lparr>entries = [(''e1'', ''tree''), (''c1'', ''content1''), (''c2'', ''content2'')],
           needFsck = False\<rparr>)"
  using gc_removes_exactly_unmarked_enumerated
    [of rev
      "\<lambda>cas digest. if digest = ''e1''
        then Inr (MkEntry [] [(''file1'', MkEntry ''c1'' []),
               (''dir1'', MkEntry [] [(''dir2'', MkEntry [] [(''file2'', MkEntry ''c2'' [])])]),
               (''lost'', MkEntry ''c3'' [])])
        else Inl (Errorf ''Missing: %s'')"
      "\<lparr>entries = [(''e1'', ''tree''), (''c1'', ''content1''), (''x1'', ''orphan''), (''c2'', ''content2'')],
        needFsck = False\<rparr>"
      "[\<lparr>Node = \<lparr>Entry = ''e1''\<rparr>, NodeError = None\<rparr>]"]
  by (simp add: gcRun_main_def mockCasTable_impl_def mock_Enumerate_def orphansOf_def
      mock_Remove_def)

text \<open>
  Claim C2. For every implementation of the table: when the node enumeration delivers an
  error entry, or \<^verbatim>\<open>LoadEntry\<close> fails on the root digest of a node, the run ends with
  an error; the table is left as the enumeration pass left it (or with the fsck bit set
  on that, when the pass itself delivered an error), and the run is the same whatever
  \<^verbatim>\<open>Remove\<close> does: \<^verbatim>\<open>Remove\<close> is not called.
\<close>

theorem gc_mark_failure_aborts_before_sweep:
  assumes "Enumerate I cas = (items, cas1)"
    and "\<exists>item \<in> set nodes. nodeFails LoadEntry cas1 item"
  shows "fst (gcRun_main I LoadEntry order None cas nodes) \<noteq> None \<and>
         (snd (gcRun_main I LoadEntry order None cas nodes) = cas1 \<or>
          snd (gcRun_main I LoadEntry order None cas nodes) = SetFsckBit I cas1) \<and>
         gcRun_main (I\<lparr>Remove := remove\<rparr>) LoadEntry order None cas nodes =
           gcRun_main I LoadEntry order None cas nodes"
proof -
  from gc_mark_failure [OF assms, of order] obtain err where
    a: "gcRun_main I LoadEntry order None cas nodes = (Some err, cas1) \<or>
        gcRun_main I LoadEntry order None cas nodes = (Some err, SetFsckBit I cas1)"
    by blast
  have e: "Enumerate (I\<lparr>Remove := remove\<rparr>) cas = (items, cas1)"
    using assms(1) by simp
  have "gcRun_main (I\<lparr>Remove := remove\<rparr>) LoadEntry order None cas nodes =
        gcRun_main I LoadEntry order None cas nodes"
  proof (cases "markCasEntries items []")
    case (Inl err)
    then show ?thesis using assms(1) by (simp add: gcRun_main_def)
  next
    case (Inr marks)
    from markNodes_error [OF assms(2), of marks] obtain err where
      "markNodes LoadEntry cas1 nodes marks = Inl err" by blast
    then show ?thesis using assms(1) Inr by (simp add: gcRun_main_def)
  qed
  with a show ?thesis by auto
qed

text \<open>Two nodes, the second with a root entry that does not load: the orphan \<^verbatim>\<open>x1\<close> stays.\<close>

theorem gc_mark_failure_aborts_before_sweep_witness:
  "Enumerate (mockCasTable_impl rev)
     \<lparr>entries = [(''e1'', ''tree''), (''x1'', ''orphan'')], needFsck = False\<rparr> =
     ([\<lparr>Item = ''x1'', Error = None\<rparr>, \<lparr>Item = ''e1'', Error = None\<rparr>],
      \<lparr>entries = [(''e1'', ''tree''), (''x1'', ''orphan'')], needFsck = False\<rparr>) \<and>
   (\<exists>item \<in> set [\<lparr>Node = \<lparr>Entry = ''e1''\<rparr>, NodeError = None\<rparr>,
                    \<lparr>Node = \<lparr>Entry = ''e2''\<rparr>, NodeError = None\<rparr>].
      nodeFails (\<lambda>cas digest. if digest = ''e1'' then Inr (MkEntry [] [])
                  else Inl (Errorf ''Missing: %s''))
        \<lparr>entries = [(''e1'', ''tree''), (''x1'', ''orphan'')], needFsck = False\<rparr> item) \<and>
   gcRun_main (mockCasTable_impl rev)
     (\<lambda>cas digest. if digest = ''e1'' then Inr (MkEntry [] []) else Inl (Errorf ''Missing: %s''))
     rev None \<lparr>entries = [(''e1'', ''tree''), (''x1'', ''orphan'')], needFsck = False\<rparr>
     [\<lparr>Node = \<lparr>Entry = ''e1''\<rparr>, NodeError = None\<rparr>,
      \<lparr>Node = \<lparr>Entry = ''e2''\<rparr>, NodeError = None\<rparr>] =
   (Some (Errorf ''Missing: %s''),
    \<lparr>entries = [(''e1'', ''tree''), (''x1'', ''orphan'')], needFsck = False\<rparr>)"
  using gc_mark_failure_aborts_before_sweep
    [of "mockCasTable_impl rev"
      "\<lparr>entries = [(''e1'', ''tree''), (''x1'', ''orphan'')], needFsck = False\<rparr>"
      "[\<lparr>Item = ''x1'', Error = None\<rparr>, \<lparr>Item = ''e1'', Error = None\<rparr>]"
      "\<lparr>entries = [(''e1'', ''tree''), (''x1'', ''orphan'')], needFsck = False\<rparr>"
      "[\<lparr>Node = \<lparr>Entry = ''e1''\<rparr>, NodeError = None\<rparr>,
        \<lparr>Node = \<lparr>Entry = ''e2''\<rparr>, NodeError = None\<rparr>]"
      "\<lambda>cas digest. if digest = ''e1'' then Inr (MkEntry [] [])
                  else Inl (Errorf ''Missing: %s'')"
      rev mock_Remove]
  by (simp add: gcRun_main_def mockCasTable_impl_def mock_Enumerate_def nodeFails_def)

subsection \<open>Opening a store\<close>

text \<open>The values \<^verbatim>\<open>TestPrefixSpace\<close> checks.\<close>

lemma prefixSpace_checks:
  "prefixSpace 0 = 0" "prefixSpace 1 = 16" "prefixSpace 2 = 256" "prefixSpace 3 = 4096"
  "prefixSpace 4 = 65536"
  by (simp_all add: prefixSpace_def)

text \<open>
  Claim C8. When the store that \<^verbatim>\<open>CommonFlag\<close> opens bears the \<^verbatim>\<open>need_fsck\<close>
  marker and the bypass is not requested, \<^verbatim>\<open>CommonFlag\<close> returns an error and no
  table; when the steps before the test succeed (a root is given, it is absolute, the
  root directory could be made), the error is the refusal
  \<^verbatim>\<open>Can't run if fsck is needed. Please run fsck first.\<close>
\<close>

theorem CommonFlag_refuses_while_fsck_needed:
  assumes "filepath_Abs env Root = Inr root"
    and "onDisk env root = HasCas c"
    and "WarnIfFsckIsNeeded c"
    and "\<not> bypassFsck"
  shows "isl (CommonFlag env Root createRoot bypassFsck) \<and>
         (Root \<noteq> [] \<and> path_IsAbs root \<and>
          (createRoot \<longrightarrow> os_MkdirAll env root = None \<or> os_IsExist (os_MkdirAll env root)) \<longrightarrow>
          CommonFlag env Root createRoot bypassFsck =
            Inl (Errorf ''Can't run if fsck is needed. Please run fsck first.''))"
  using assms by (auto simp: CommonFlag_def MakeCasTable_def)

text \<open>A store with the marker, opened without the bypass.\<close>

theorem CommonFlag_refuses_while_fsck_needed_witness:
  "filepath_Abs \<lparr>filepath_Abs = (\<lambda>p. Inr (''/backup/'' @ p)), os_MkdirAll = (\<lambda>p. None),
       onDisk = (\<lambda>p. HasCas \<lparr>casDir = [(''105'', Dir []), (''need_fsck'', File [])], trash = None\<rparr>)\<rparr>
     ''store'' = Inr ''/backup/store'' \<and>
   WarnIfFsckIsNeeded \<lparr>casDir = [(''105'', Dir []), (''need_fsck'', File [])], trash = None\<rparr> \<and>
   CommonFlag \<lparr>filepath_Abs = (\<lambda>p. Inr (''/backup/'' @ p)), os_MkdirAll = (\<lambda>p. None),
       onDisk = (\<lambda>p. HasCas \<lparr>casDir = [(''105'', Dir []), (''need_fsck'', File [])], trash = None\<rparr>)\<rparr>
     ''store'' False False =
     Inl (Errorf ''Can't run if fsck is needed. Please run fsck first.'')"
  using CommonFlag_refuses_while_fsck_needed
    [of "\<lparr>filepath_Abs = (\<lambda>p. Inr (''/backup/'' @ p)), os_MkdirAll = (\<lambda>p. None),
       onDisk = (\<lambda>p. HasCas \<lparr>casDir = [(''105'', Dir []), (''need_fsck'', File [])], trash = None\<rparr>)\<rparr>"
      "''store''" "''/backup/store''"
      "\<lparr>casDir = [(''105'', Dir []), (''need_fsck'', File [])], trash = None\<rparr>" False False]
  by (simp add: WarnIfFsckIsNeeded_def needFsckName_def path_IsAbs_def)

subsection \<open>Passes over the store\<close>

lemma rePrefix_length: "rePrefix p \<Longrightarrow> length p = 3"
  by (simp add: rePrefix_def hexMatch_def prefixLength_def splitAt_def)

lemma rePrefix_not_marker: "rePrefix p \<Longrightarrow> p \<noteq> needFsckName"
  by (auto simp: rePrefix_def hexMatch_def prefixLength_def splitAt_def needFsckName_def)

lemma rePrefix_not_trash: "rePrefix p \<Longrightarrow> p \<noteq> TrashName"
  by (auto simp: rePrefix_def hexMatch_def prefixLength_def splitAt_def TrashName_def)

lemma validPath_split:
  "validPath h \<Longrightarrow> rePrefix (take prefixLength h) \<and> reRest (drop prefixLength h)"
  by (auto simp: validPath_def rePrefix_def reRest_def hexMatch_def hashLength_def prefixLength_def
      splitAt_def list_all_iff dest: in_set_takeD in_set_dropD)

lemma validPath_join: "rePrefix p \<Longrightarrow> reRest i \<Longrightarrow> validPath (p @ i)"
  by (auto simp: validPath_def rePrefix_def reRest_def hexMatch_def hashLength_def prefixLength_def
      splitAt_def)

subsection \<open>The steps of a pass\<close>

lemma NeedFsck_other [simp]:
  "k \<noteq> needFsckName \<Longrightarrow> map_of (casDir (NeedFsck c)) k = map_of (casDir c) k"
  by (auto simp: NeedFsck_def update_conv' split: option.splits node.splits)

lemma NeedFsck_marker [simp]: "WarnIfFsckIsNeeded (NeedFsck c)"
  by (auto simp: NeedFsck_def WarnIfFsckIsNeeded_def update_conv' split: option.splits node.splits)

lemma NeedFsck_present:
  "map_of (casDir c) k \<noteq> None \<Longrightarrow> map_of (casDir (NeedFsck c)) k \<noteq> None"
  by (auto simp: NeedFsck_def update_conv' split: option.splits node.splits)

lemma NeedFsck_trash [simp]: "trash (NeedFsck c) = trash c"
  by (auto simp: NeedFsck_def split: option.splits node.splits)

lemma NeedFsck_trashed [simp]: "trashed (NeedFsck c) = trashed c"
  by (simp add: trashed_def)

lemma NeedFsck_names:
  "set (map fst (casDir (NeedFsck c))) \<subseteq> insert needFsckName (set (map fst (casDir c)))"
  "distinct (map fst (casDir c)) \<Longrightarrow> distinct (map fst (casDir (NeedFsck c)))"
  by (auto simp: NeedFsck_def dom_update distinct_update split: option.splits node.splits)

lemma delete_absent: "map_of al k = None \<Longrightarrow> AList.delete k al = al"
  by (simp add: map_of_eq_None_iff)

lemma map_of_Some_key: "map_of al k = Some v \<Longrightarrow> k \<in> fst ` set al"
  by (metis domI dom_map_of_conv_image_fst)

lemma Move1_casDir: "casDir (snd (trash_Move [q] c)) = AList.delete q (casDir c)"
  by (auto simp: delete_absent split: option.splits)

lemma Move1_trashed:
  "trashed (snd (trash_Move [q] c)) =
     trashed c @ (case map_of (casDir c) q of None \<Rightarrow> [] | Some n \<Rightarrow> [([q], n)])"
  by (auto simp: trashed_def split: option.splits)

lemma Move2_casDir:
  "map_of (casDir (snd (trash_Move [p, i] c))) k =
     (if k = p then (case map_of (casDir c) p of
                       Some (Dir s) \<Rightarrow> Some (Dir (AList.delete i s))
                     | other \<Rightarrow> other)
      else map_of (casDir c) k)"
  by (auto simp: update_conv' delete_absent split: option.splits node.splits)

lemma Move2_trashed:
  "trashed (snd (trash_Move [p, i] c)) =
     trashed c @ (case map_of (casDir c) p of
                    Some (Dir s) \<Rightarrow> (case map_of s i of None \<Rightarrow> [] | Some n \<Rightarrow> [([p, i], n)])
                  | other \<Rightarrow> [])"
  by (auto simp: trashed_def split: option.splits node.splits)

lemma Move2_names:
  "map fst (casDir (snd (trash_Move [p, i] c))) = map fst (casDir c)"
  by (auto simp: update_keys dest: map_of_Some_key split: option.splits node.splits)


declare trash_Move.simps [simp del]

subsection \<open>The loop over the items of a shard\<close>

lemma enumerateItems_yielded:
  "yielded (fst (enumerateItems p items c)) = map (\<lambda>item. p @ item) (filter reRest items)"
  by (induction items arbitrary: c) (simp_all add: yielded_def split_beta)

lemma enumerateItems_no_error:
  "e \<in> set (fst (enumerateItems p items c)) \<Longrightarrow> Error e = None"
  by (induction items arbitrary: c) (auto simp: split_beta split: if_splits)

lemma enumerateItems_other:
  "k \<noteq> p \<Longrightarrow> k \<noteq> needFsckName \<Longrightarrow>
   map_of (casDir (snd (enumerateItems p items c))) k = map_of (casDir c) k"
  by (induction items arbitrary: c) (simp_all add: split_beta Move2_casDir)







lemma enumerateItems_present:
  "map_of (casDir c) k \<noteq> None \<Longrightarrow> map_of (casDir (snd (enumerateItems p items c))) k \<noteq> None"
proof (induction items arbitrary: c)
  case Nil
  then show ?case by simp
next
  case (Cons item items)
  have "map_of (casDir (NeedFsck (snd (trash_Move [p, item] c)))) k \<noteq> None"
    using Cons.prems
    by (intro NeedFsck_present) (auto simp: Move2_casDir split: option.splits node.splits)
  then show ?case using Cons by (simp add: split_beta)
qed

lemma enumerateItems_absent:
  "k \<noteq> needFsckName \<Longrightarrow> map_of (casDir c) k = None \<Longrightarrow>
   map_of (casDir (snd (enumerateItems p items c))) k = None"
proof (induction items arbitrary: c)
  case Nil
  then show ?case by simp
next
  case (Cons item items)
  have "map_of (casDir (NeedFsck (snd (trash_Move [p, item] c)))) k = None"
    using Cons.prems by (auto simp: Move2_casDir)
  then show ?case using Cons by (simp add: split_beta)
qed

lemma enumerateItems_invariant:
  assumes "P c"
    and "\<And>c item. item \<in> set items \<Longrightarrow> \<not> reRest item \<Longrightarrow> P c \<Longrightarrow>
           P (NeedFsck (snd (trash_Move [p, item] c)))"
  shows "P (snd (enumerateItems p items c))"
  using assms
proof (induction items arbitrary: c)
  case Nil
  then show ?case by simp
next
  case (Cons item items)
  have step: "\<And>c i. i \<in> set items \<Longrightarrow> \<not> reRest i \<Longrightarrow> P c \<Longrightarrow>
      P (NeedFsck (snd (trash_Move [p, i] c)))"
    using Cons.prems(2) by simp
  show ?case
  proof (cases "reRest item")
    case True
    have "P (snd (enumerateItems p items c))"
      using Cons.prems(1) step by (rule Cons.IH)
    then show ?thesis using True by (simp add: split_beta)
  next
    case False
    have "P (NeedFsck (snd (trash_Move [p, item] c)))"
      using Cons.prems(1) False by (intro Cons.prems(2)) simp_all
    then have "P (snd (enumerateItems p items (NeedFsck (snd (trash_Move [p, item] c)))))"
      using step by (rule Cons.IH)
    then show ?thesis using False by simp
  qed
qed

subsection \<open>The loop over the names of the store directory\<close>

lemma enumeratePrefixes_shift:
  "enumeratePrefixes (\<lambda>k. False) k ps c = enumeratePrefixes (\<lambda>k. False) k' ps c"
proof (induction ps arbitrary: k k' c)
  case Nil
  then show ?case by simp
next
  case (Cons p ps)
  note ih = Cons.IH [of "Suc k" _ "Suc k'"]
  show ?case
    by (simp add: ih split_beta split: sum.splits)
qed

lemma fullPass_simps [simp]:
  "fullPass [] c = ([], c)"
  "fullPass (prefix # prefixes) c =
     (if prefix = TrashName then fullPass prefixes c
      else if \<not> rePrefix prefix then fullPass prefixes (NeedFsck (snd (trash_Move [prefix] c)))
      else
        (case readDirNames c prefix of
           Inl err \<Rightarrow>
             (let (out, c') = fullPass prefixes (NeedFsck c)
              in (\<lparr>Item = [], Error = Some (Errorf ''Failed reading %s'')\<rparr> # out, c'))
         | Inr subitems \<Rightarrow>
             (let (out1, c1) = enumerateItems prefix subitems c;
                  (out2, c2) = fullPass prefixes c1
              in (out1 @ out2, c2))))"
  by (simp_all add: fullPass_def enumeratePrefixes_shift [of "Suc 0" _ _ 0] split: sum.splits)


lemma enumeratePrefixes_take_all:
  "\<exists>m. \<forall>c. enumeratePrefixes intr k ps c = fullPass (take m ps) c"
proof (induction ps arbitrary: k)
  case Nil
  then show ?case by simp
next
  case (Cons p ps)
  show ?case
  proof (cases "intr k")
    case True
    then have "\<forall>c. enumeratePrefixes intr k (p # ps) c = fullPass (take 0 (p # ps)) c" by simp
    then show ?thesis by blast
  next
    case False
    from Cons.IH [of "Suc k"] obtain m where
      m: "\<And>c. enumeratePrefixes intr (Suc k) ps c = fullPass (take m ps) c"
      by blast
    have "\<forall>c. enumeratePrefixes intr k (p # ps) c = fullPass (take (Suc m) (p # ps)) c"
      using False by (simp add: m split: sum.splits)
    then show ?thesis by blast
  qed
qed

lemma enumeratePrefixes_take:
  "\<exists>m. enumeratePrefixes intr k ps c = fullPass (take m ps) c"
  using enumeratePrefixes_take_all [of intr k ps] by blast

lemma fullEnumerate_fullPass: "fullEnumerate c = fullPass (readDirNames_casDir c) c"
  by (simp add: fullEnumerate_def casTable_Enumerate_def fullPass_def)


lemma Enumerate_take:
  "\<exists>m. casTable_Enumerate intr c = fullPass (take m (readDirNames_casDir c)) c"
  unfolding casTable_Enumerate_def by (rule enumeratePrefixes_take)

lemma fullPass_cases:
  obtains (trash) "q = TrashName"
      "fullPass (q # ps) c = fullPass ps c"
    | (junk) "q \<noteq> TrashName" "\<not> rePrefix q"
      "fullPass (q # ps) c = fullPass ps (NeedFsck (snd (trash_Move [q] c)))"
    | (unreadable) "rePrefix q" "\<forall>s. map_of (casDir c) q \<noteq> Some (Dir s)"
      "fst (fullPass (q # ps) c) =
         \<lparr>Item = [], Error = Some (Errorf ''Failed reading %s'')\<rparr> #
         fst (fullPass ps (NeedFsck c))"
      "snd (fullPass (q # ps) c) = snd (fullPass ps (NeedFsck c))"
    | (shard) s where "rePrefix q" "map_of (casDir c) q = Some (Dir s)"
      "fst (fullPass (q # ps) c) =
         fst (enumerateItems q (map fst s) c) @
         fst (fullPass ps (snd (enumerateItems q (map fst s) c)))"
      "snd (fullPass (q # ps) c) =
         snd (fullPass ps (snd (enumerateItems q (map fst s) c)))"
proof (cases "q = TrashName")
  case True
  then show ?thesis using trash by simp
next
  case nt: False
  show ?thesis
  proof (cases "rePrefix q")
    case False
    then show ?thesis using nt junk by simp
  next
    case True
    show ?thesis
    proof (cases "map_of (casDir c) q")
      case None
      then show ?thesis
        using True nt unreadable by (simp add: readDirNames_def split_beta)
    next
      case (Some n)
      show ?thesis
      proof (cases n)
        case (File data)
        then show ?thesis
          using Some True nt unreadable by (simp add: readDirNames_def split_beta)
      next
        case (Dir s)
        then show ?thesis
          using Some True nt shard [of s] by (simp add: readDirNames_def split_beta)
      qed
    qed
  qed
qed

lemma fullPass_invariant:
  assumes "P c"
    and "\<And>c q. q \<in> set ps \<Longrightarrow> q \<noteq> TrashName \<Longrightarrow> \<not> rePrefix q \<Longrightarrow> P c \<Longrightarrow>
           P (NeedFsck (snd (trash_Move [q] c)))"
    and "\<And>c q. q \<in> set ps \<Longrightarrow> rePrefix q \<Longrightarrow> P c \<Longrightarrow> P (NeedFsck c)"
    and "\<And>c q item. q \<in> set ps \<Longrightarrow> rePrefix q \<Longrightarrow> \<not> reRest item \<Longrightarrow> P c \<Longrightarrow>
           P (NeedFsck (snd (trash_Move [q, item] c)))"
  shows "P (snd (fullPass ps c))"
  using assms
proof (induction ps arbitrary: c)
  case Nil
  then show ?case by simp
next
  case (Cons q ps)
  note s1 = Cons.prems(2) [OF list.set_intros(2)]
  note s2 = Cons.prems(3) [OF list.set_intros(2)]
  note s3 = Cons.prems(4) [OF list.set_intros(2)]
  have rest: "P (snd (fullPass ps c'))" if "P c'" for c'
    using that s1 s2 s3 by (rule Cons.IH)
  show ?case
  proof (cases q ps c rule: fullPass_cases)
    case trash
    then show ?thesis using rest [OF Cons.prems(1)] by simp
  next
    case junk
    have "P (NeedFsck (snd (trash_Move [q] c)))"
      using junk Cons.prems(1) by (intro Cons.prems(2)) simp_all
    from rest [OF this] show ?thesis using junk by simp
  next
    case unreadable
    have "P (NeedFsck c)"
      using unreadable Cons.prems(1) by (intro Cons.prems(3) [of q]) simp_all
    from rest [OF this] show ?thesis using unreadable by simp
  next
    case (shard s)
    have "P (snd (enumerateItems q (map fst s) c))"
    proof (rule enumerateItems_invariant [where P = P])
      show "P c" by (rule Cons.prems(1))
      show "\<And>c item. item \<in> set (map fst s) \<Longrightarrow> \<not> reRest item \<Longrightarrow> P c \<Longrightarrow>
          P (NeedFsck (snd (trash_Move [q, item] c)))"
        using shard(1) by (intro Cons.prems(4)) simp_all
    qed
    from rest [OF this] show ?thesis using shard by simp
  qed
qed





lemma Move_marker_kept:
  "q \<noteq> needFsckName \<Longrightarrow> WarnIfFsckIsNeeded c \<Longrightarrow> WarnIfFsckIsNeeded (snd (trash_Move [q, item] c))"
  by (simp add: WarnIfFsckIsNeeded_def Move2_casDir)

lemma NeedFsck_Open:
  "validPath h \<Longrightarrow> casTable_Open h (NeedFsck c) = casTable_Open h c"
  using rePrefix_not_marker [of "take prefixLength h"] validPath_split [of h]
  by (simp add: casTable_Open_def filePath_def)

lemma Move1_Open:
  "validPath h \<Longrightarrow> \<not> rePrefix q \<Longrightarrow> casTable_Open h (snd (trash_Move [q] c)) = casTable_Open h c"
  using validPath_split [of h]
  by (auto simp: casTable_Open_def filePath_def Move1_casDir delete_conv')

lemma Move2_Open:
  "validPath h \<Longrightarrow> \<not> reRest item \<Longrightarrow>
   casTable_Open h (snd (trash_Move [q, item] c)) = casTable_Open h c"
  using validPath_split [of h]
  by (auto simp: casTable_Open_def filePath_def Move2_casDir delete_conv'
      split: option.splits node.splits)

lemma enumerateItems_Open:
  assumes "validPath h"
  shows "casTable_Open h (snd (enumerateItems p items c)) = casTable_Open h c"
  by (rule enumerateItems_invariant [where P = "\<lambda>c'. casTable_Open h c' = casTable_Open h c"])
     (simp_all add: assms NeedFsck_Open Move2_Open)

lemma fullPass_Open:
  assumes "validPath h"
  shows "casTable_Open h (snd (fullPass ps c)) = casTable_Open h c"
  by (rule fullPass_invariant [where P = "\<lambda>c'. casTable_Open h c' = casTable_Open h c"])
     (simp_all add: assms NeedFsck_Open Move1_Open Move2_Open)


lemma shardBlobs_cong:
  "(rePrefix k \<Longrightarrow> map_of (casDir c') k = map_of (casDir c) k) \<Longrightarrow> shardBlobs c' k = shardBlobs c k"
  by (simp add: shardBlobs_def)

lemma not_rePrefix_TrashName: "\<not> rePrefix TrashName"
  using rePrefix_not_trash by blast

lemma shardBlobs_junk: "\<not> rePrefix k \<Longrightarrow> shardBlobs c k = []"
  by (simp add: shardBlobs_def)

lemma fullPass_yielded:
  "distinct ps \<Longrightarrow> yielded (fst (fullPass ps c)) = concat (map (shardBlobs c) ps)"
proof (induction ps arbitrary: c)
  case Nil
  then show ?case by (simp add: yielded_def)
next
  case (Cons q ps)
  from Cons.prems have d: "distinct ps" and q: "q \<notin> set ps" by simp_all
  have rest: "yielded (fst (fullPass ps c')) = concat (map (shardBlobs c) ps)"
    if "\<And>k. k \<in> set ps \<Longrightarrow> rePrefix k \<Longrightarrow> map_of (casDir c') k = map_of (casDir c) k" for c'
  proof -
    have "map (shardBlobs c') ps = map (shardBlobs c) ps"
      using that by (intro map_cong refl shardBlobs_cong) 
    then show ?thesis unfolding Cons.IH [OF d, of c'] by (rule arg_cong)
  qed
  show ?case
  proof (cases q ps c rule: fullPass_cases)
    case trash
    then show ?thesis using rest [of c] by (simp add: shardBlobs_junk not_rePrefix_TrashName)
  next
    case junk
    have "yielded (fst (fullPass ps (NeedFsck (snd (trash_Move [q] c))))) =
        concat (map (shardBlobs c) ps)"
      using q by (intro rest) (auto simp: rePrefix_not_marker Move1_casDir delete_conv')
    then show ?thesis using junk by (simp add: shardBlobs_junk)
  next
    case unreadable
    have "yielded (fst (fullPass ps (NeedFsck c))) = concat (map (shardBlobs c) ps)"
      by (intro rest) (simp add: rePrefix_not_marker)
    moreover have "shardBlobs c q = []"
      using unreadable(2) by (auto simp: shardBlobs_def split: option.splits node.splits)
    ultimately show ?thesis using unreadable(3) by (simp add: yielded_def)
  next
    case (shard s)
    have "map_of (casDir (snd (enumerateItems q (map fst s) c))) k = map_of (casDir c) k"
      if "k \<in> set ps" "rePrefix k" for k
      using that q rePrefix_not_marker [of k] by (intro enumerateItems_other) auto
    then have "yielded (fst (fullPass ps (snd (enumerateItems q (map fst s) c)))) =
        concat (map (shardBlobs c) ps)"
      by (intro rest)
    moreover have "shardBlobs c q = yielded (fst (enumerateItems q (map fst s) c))"
      using shard(1,2) by (simp add: shardBlobs_def enumerateItems_yielded)
    ultimately show ?thesis using shard(3) by (simp add: yielded_def)
  qed
qed

lemma validBlobs_shardBlobs:
  assumes "wellFormed c"
  shows "concat (map (shardBlobs c) (readDirNames_casDir c)) = validBlobs c"
proof -
  have d: "distinct (map fst (casDir c))"
    using assms by (simp add: wellFormed_def)
  have eq: "map (shardBlobs c) (map fst (casDir c)) =
      map (\<lambda>(prefix, n). case n of File data \<Rightarrow> [] |
             Dir subitems \<Rightarrow> if rePrefix prefix
               then map (\<lambda>item. prefix @ item) (filter reRest (map fst subitems)) else [])
        (casDir c)"
  proof (simp only: map_map, intro map_cong refl)
    fix x assume "x \<in> set (casDir c)"
    then have "map_of (casDir c) (fst x) = Some (snd x)"
      using d by (cases x) (auto intro: map_of_is_SomeI)
    then show "(shardBlobs c \<circ> fst) x =
        (case x of (prefix, n) \<Rightarrow> case n of File data \<Rightarrow> [] |
             Dir subitems \<Rightarrow> if rePrefix prefix
               then map (\<lambda>item. prefix @ item) (filter reRest (map fst subitems)) else [])"
      by (cases x) (auto simp: shardBlobs_def split: node.splits)
  qed
  have "concat (map (shardBlobs c) (readDirNames_casDir c)) =
      concat (map (shardBlobs c) (map fst (casDir c)))"
    by (simp add: readDirNames_casDir_def shardBlobs_junk not_rePrefix_TrashName)
  also have "\<dots> = validBlobs c"
    unfolding eq validBlobs_def ..
  finally show ?thesis .
qed

lemma readDirNames_casDir_distinct:
  "wellFormed c \<Longrightarrow> distinct (readDirNames_casDir c)"
  by (auto simp: wellFormed_def readDirNames_casDir_def)



lemma NeedFsck_wellFormed: "wellFormed c \<Longrightarrow> wellFormed (NeedFsck c)"
  using NeedFsck_names [of c]
  by (auto simp: wellFormed_def TrashName_def needFsckName_def)

lemma Move1_wellFormed: "wellFormed c \<Longrightarrow> wellFormed (snd (trash_Move [q] c))"
  by (auto simp: wellFormed_def Move1_casDir delete_keys distinct_removeAll)

lemma Move2_wellFormed: "wellFormed c \<Longrightarrow> wellFormed (snd (trash_Move [q, item] c))"
  by (simp add: wellFormed_def Move2_names)

lemma fullPass_wellFormed:
  assumes "wellFormed c"
  shows "wellFormed (snd (fullPass ps c))"
  by (rule fullPass_invariant [where P = wellFormed])
     (simp_all add: assms NeedFsck_wellFormed Move1_wellFormed Move2_wellFormed)

lemma Enumerate_wellFormed: "wellFormed c \<Longrightarrow> wellFormed (snd (fullEnumerate c))"
  by (simp add: fullEnumerate_fullPass fullPass_wellFormed)



declare fullPass_simps [simp del]

lemma fullPass_trashed:
  "\<exists>new. trashed (snd (fullPass ps c)) = trashed c @ new \<and>
         (\<forall>entry \<in> set new. quarantinePath (fst entry))"
proof (rule fullPass_invariant
    [where P = "\<lambda>c'. \<exists>new. trashed c' = trashed c @ new \<and> (\<forall>entry \<in> set new. quarantinePath (fst entry))"])
  show "\<exists>new. trashed c = trashed c @ new \<and> (\<forall>entry \<in> set new. quarantinePath (fst entry))"
    by simp
next
  fix c' q
  assume q: "q \<noteq> TrashName" "\<not> rePrefix q"
    and "\<exists>new. trashed c' = trashed c @ new \<and> (\<forall>entry \<in> set new. quarantinePath (fst entry))"
  then obtain new where n: "trashed c' = trashed c @ new"
    "\<forall>entry \<in> set new. quarantinePath (fst entry)" by blast
  let ?add = "case map_of (casDir c') q of None \<Rightarrow> [] | Some n \<Rightarrow> [([q], n)]"
  have "trashed (NeedFsck (snd (trash_Move [q] c'))) = trashed c @ (new @ ?add)"
    using n(1) by (simp add: Move1_trashed)
  moreover have "\<forall>entry \<in> set (new @ ?add). quarantinePath (fst entry)"
    using n(2) q by (auto simp: quarantinePath_def split: option.splits)
  ultimately show "\<exists>new. trashed (NeedFsck (snd (trash_Move [q] c'))) = trashed c @ new \<and>
      (\<forall>entry \<in> set new. quarantinePath (fst entry))"
    by blast
next
  fix c' :: casTable
  assume "\<exists>new. trashed c' = trashed c @ new \<and> (\<forall>entry \<in> set new. quarantinePath (fst entry))"
  then show "\<exists>new. trashed (NeedFsck c') = trashed c @ new \<and>
      (\<forall>entry \<in> set new. quarantinePath (fst entry))"
    by simp
next
  fix c' q item
  assume q: "rePrefix q" "\<not> reRest item"
    and "\<exists>new. trashed c' = trashed c @ new \<and> (\<forall>entry \<in> set new. quarantinePath (fst entry))"
  then obtain new where n: "trashed c' = trashed c @ new"
    "\<forall>entry \<in> set new. quarantinePath (fst entry)" by blast
  let ?add = "case map_of (casDir c') q of
      Some (Dir s) \<Rightarrow> (case map_of s item of None \<Rightarrow> [] | Some n \<Rightarrow> [([q, item], n)])
    | other \<Rightarrow> []"
  have "trashed (NeedFsck (snd (trash_Move [q, item] c'))) = trashed c @ (new @ ?add)"
    using n(1) by (simp add: Move2_trashed)
  moreover have "\<forall>entry \<in> set (new @ ?add). quarantinePath (fst entry)"
    using n(2) q by (auto simp: quarantinePath_def split: option.splits node.splits)
  ultimately show "\<exists>new. trashed (NeedFsck (snd (trash_Move [q, item] c'))) = trashed c @ new \<and>
      (\<forall>entry \<in> set new. quarantinePath (fst entry))"
    by blast
qed






lemma enumerateItems_clean:
  "\<forall>item \<in> set items. reRest item \<Longrightarrow> snd (enumerateItems p items c) = c"
  by (induction items) (simp_all add: split_beta)

lemma fullPass_clean:
  "\<forall>q \<in> set ps. \<not> anomalous c q \<Longrightarrow> snd (fullPass ps c) = c"
proof (induction ps)
  case Nil
  then show ?case by (simp add: fullPass_simps)
next
  case (Cons k ps)
  from Cons.prems have k: "\<not> anomalous c k" and rest: "snd (fullPass ps c) = c"
    using Cons.IH by simp_all
  show ?case
  proof (cases k ps c rule: fullPass_cases)
    case trash
    then show ?thesis using rest by simp
  next
    case junk
    then show ?thesis using k by (simp add: anomalous_def)
  next
    case unreadable
    then show ?thesis using k rePrefix_not_trash [of k]
      by (auto simp: anomalous_def split: option.splits node.splits)
  next
    case (shard s)
    then have "\<forall>item \<in> set (map fst s). reRest item"
      using k rePrefix_not_trash [of k] by (auto simp: anomalous_def)
    then have "snd (enumerateItems k (map fst s) c) = c"
      by (rule enumerateItems_clean)
    then show ?thesis using shard(4) rest by simp
  qed
qed

lemma Enumerate_clean:
  "\<forall>q \<in> set (map fst (casDir c)). \<not> anomalous c q \<Longrightarrow> snd (fullEnumerate c) = c"
  by (intro fullPass_clean [of "readDirNames_casDir c" c, folded fullEnumerate_fullPass])
     (auto simp: readDirNames_casDir_def anomalous_def)

lemma validBlobs_live:
  assumes "wellFormed c" and "h \<in> set (validBlobs c)"
  shows "validPath h \<and> (\<exists>n. casTable_Open h c = Inr n)"
proof -
  from assms(2) obtain p s item where
    e: "(p, Dir s) \<in> set (casDir c)" "rePrefix p" "item \<in> set (map fst s)" "reRest item"
    and h: "h = p @ item"
    by (auto simp: validBlobs_def split: node.splits if_splits)
  have v: "validPath h" using e(2,4) h by (simp add: validPath_join)
  have "map_of (casDir c) p = Some (Dir s)"
    using assms(1) e(1) by (auto simp: wellFormed_def intro: map_of_is_SomeI)
  moreover have "map_of s item \<noteq> None"
    using e(3) by (simp add: map_of_eq_None_iff)
  moreover have "take prefixLength h = p" "drop prefixLength h = item"
    using rePrefix_length [OF e(2)] h by (simp_all add: prefixLength_def splitAt_def)
  ultimately show ?thesis
    using v by (auto simp: casTable_Open_def filePath_def)
qed

lemma Open_invalid: "\<not> validPath h \<Longrightarrow> casTable_Open h c = Inl ErrInvalid"
  by (simp add: casTable_Open_def filePath_def)


lemma Enumerate_trashed:
  "\<exists>new. trashed (snd (fullEnumerate c)) = trashed c @ new \<and>
         (\<forall>entry \<in> set new. quarantinePath (fst entry))"
  unfolding fullEnumerate_fullPass by (rule fullPass_trashed)


lemma quarantinePath_not_trash: "quarantinePath relPath \<Longrightarrow> relPath \<noteq> [] \<and> hd relPath \<noteq> TrashName"
  by (auto simp: quarantinePath_def dest: rePrefix_not_trash)

lemma not_validPath_TrashName: "\<not> validPath TrashName"
  by (simp add: validPath_def hexMatch_def hashLength_def TrashName_def)

subsection \<open>A pass that may be interrupted\<close>

lemma Enumerate_any_wellFormed:
  assumes "wellFormed c"
  shows "wellFormed (snd (casTable_Enumerate intr c))"
proof -
  from Enumerate_take [of intr c] obtain m where
    "casTable_Enumerate intr c = fullPass (take m (readDirNames_casDir c)) c" by blast
  then show ?thesis using assms by (simp add: fullPass_wellFormed)
qed

lemma Enumerate_any_Open:
  "casTable_Open h (snd (casTable_Enumerate intr c)) = casTable_Open h c"
proof (cases "validPath h")
  case True
  from Enumerate_take [of intr c] obtain m where
    "casTable_Enumerate intr c = fullPass (take m (readDirNames_casDir c)) c" by blast
  then show ?thesis using True by (simp add: fullPass_Open)
next
  case False
  then show ?thesis by (simp add: Open_invalid)
qed

lemma Enumerate_any_trashed:
  "\<exists>new. trashed (snd (casTable_Enumerate intr c)) = trashed c @ new \<and>
         (\<forall>entry \<in> set new. quarantinePath (fst entry))"
proof -
  from Enumerate_take [of intr c] obtain m where
    "casTable_Enumerate intr c = fullPass (take m (readDirNames_casDir c)) c" by blast
  then show ?thesis using fullPass_trashed [of "take m (readDirNames_casDir c)" c] by simp
qed

lemma Enumerate_any_clean:
  assumes "\<forall>q \<in> set (map fst (casDir c)). \<not> anomalous c q"
  shows "snd (casTable_Enumerate intr c) = c"
proof -
  from Enumerate_take [of intr c] obtain m where
    m: "casTable_Enumerate intr c = fullPass (take m (readDirNames_casDir c)) c" by blast
  have "\<forall>q \<in> set (take m (readDirNames_casDir c)). \<not> anomalous c q"
  proof
    fix q assume "q \<in> set (take m (readDirNames_casDir c))"
    then have "q \<in> set (readDirNames_casDir c)" by (rule in_set_takeD)
    then show "\<not> anomalous c q"
      using assms by (auto simp: readDirNames_casDir_def anomalous_def split: if_splits)
  qed
  then show ?thesis using m by (simp add: fullPass_clean)
qed

lemma Enumerate_any_yielded:
  assumes "wellFormed c" and "h \<in> set (yielded (fst (casTable_Enumerate intr c)))"
  shows "h \<in> set (validBlobs c)"
proof -
  let ?ps = "readDirNames_casDir c"
  from Enumerate_take [of intr c] obtain m where
    m: "casTable_Enumerate intr c = fullPass (take m ?ps) c" by blast
  have "distinct (take m ?ps)"
    using readDirNames_casDir_distinct [OF assms(1)] by (rule distinct_take)
  then have "yielded (fst (fullPass (take m ?ps) c)) = concat (map (shardBlobs c) (take m ?ps))"
    by (rule fullPass_yielded)
  with assms(2) m obtain q where "q \<in> set (take m ?ps)" "h \<in> set (shardBlobs c q)"
    by auto
  then have "h \<in> set (concat (map (shardBlobs c) ?ps))"
    by (auto dest: in_set_takeD)
  then show ?thesis using validBlobs_shardBlobs [OF assms(1)] by simp
qed

lemma enumeratePasses_wellFormed:
  "wellFormed c \<Longrightarrow> wellFormed (snd (enumeratePasses intr n c))"
  by (induction n arbitrary: c intr) (simp_all add: split_beta Enumerate_any_wellFormed)

lemma enumeratePasses_yielded_live:
  "wellFormed c \<Longrightarrow> out \<in> set (fst (enumeratePasses intr n c)) \<Longrightarrow> h \<in> set (yielded out) \<Longrightarrow>
   validPath h \<and> (\<exists>node. casTable_Open h c = Inr node)"
proof (induction n arbitrary: c intr)
  case 0
  then show ?case by simp
next
  case (Suc n)
  let ?c1 = "snd (casTable_Enumerate (intr 0) c)"
  from Suc.prems(2) consider "out = fst (casTable_Enumerate (intr 0) c)"
    | "out \<in> set (fst (enumeratePasses (\<lambda>j. intr (Suc j)) n ?c1))"
    by (auto simp: split_beta)
  then show ?case
  proof cases
    case 1
    then have "h \<in> set (validBlobs c)"
      using Suc.prems(1,3) by (simp add: Enumerate_any_yielded)
    with Suc.prems(1) show ?thesis by (rule validBlobs_live)
  next
    case 2
    from Suc.IH [OF Enumerate_any_wellFormed [OF Suc.prems(1)] 2 Suc.prems(3)]
    show ?thesis by (simp add: Enumerate_any_Open)
  qed
qed

lemma enumeratePasses_trashed:
  "\<exists>new. trashed (snd (enumeratePasses intr n c)) = trashed c @ new \<and>
         (\<forall>entry \<in> set new. quarantinePath (fst entry))"
proof (induction n arbitrary: c intr)
  case 0
  then show ?case by simp
next
  case (Suc n)
  let ?c1 = "snd (casTable_Enumerate (intr 0) c)"
  from Enumerate_any_trashed [of "intr 0" c] obtain new1 where
    a: "trashed ?c1 = trashed c @ new1" "\<forall>entry \<in> set new1. quarantinePath (fst entry)"
    by blast
  from Suc.IH [of "\<lambda>j. intr (Suc j)" ?c1] obtain new2 where
    b: "trashed (snd (enumeratePasses (\<lambda>j. intr (Suc j)) n ?c1)) = trashed ?c1 @ new2"
    "\<forall>entry \<in> set new2. quarantinePath (fst entry)"
    by blast
  have "trashed (snd (enumeratePasses intr (Suc n) c)) = trashed c @ (new1 @ new2)"
    using a(1) b(1) by (simp add: split_beta)
  moreover have "\<forall>entry \<in> set (new1 @ new2). quarantinePath (fst entry)"
    using a(2) b(2) by auto
  ultimately show ?case by blast
qed

lemma enumeratePasses_clean:
  "\<forall>q \<in> set (map fst (casDir c)). \<not> anomalous c q \<Longrightarrow> snd (enumeratePasses intr n c) = c"
  by (induction n arbitrary: intr) (simp_all add: split_beta Enumerate_any_clean)

subsection \<open>Quarantine\<close>

text \<open>The definitions that evaluate a pass over a given store.\<close>

lemmas eval_store =
  casTable_Enumerate_def enumeratePrefixes.simps fullEnumerate_def trash_Move.simps
  readDirNames_casDir_def readDirNames_def NeedFsck_def rePrefix_def reRest_def hexMatch_def
  hexChar_def prefixLength_def splitAt_def hashLength_def TrashName_def needFsckName_def
  yielded_def validBlobs_def wellFormed_def trashed_def WarnIfFsckIsNeeded_def





text \<open>
  Claim C10. For every store and every number of passes: the trash directory's name is
  never delivered; what the trash holds stays in the trash; whatever a pass adds to the
  trash is a path that does not begin with the trash directory's name; a store at whose
  other names a pass finds nothing wrong is left exactly as it is by every pass, trash
  directory or not, so the trash directory sets no marker; and a digest that \<^verbatim>\<open>Open\<close>
  does not find in the store (a quarantined one) is delivered by no pass.
\<close>
theorem Enumerate_skips_trash_directory:
  assumes "wellFormed c"
  shows "(\<forall>out \<in> set (fst (enumeratePasses IsInterrupted n c)). TrashName \<notin> set (yielded out)) \<and>
     (\<forall>entry \<in> set (trashed c). entry \<in> set (trashed (snd (enumeratePasses IsInterrupted n c)))) \<and>
     (\<forall>entry \<in> set (trashed (snd (enumeratePasses IsInterrupted n c))).
        entry \<in> set (trashed c) \<or> (fst entry \<noteq> [] \<and> hd (fst entry) \<noteq> TrashName)) \<and>
     ((\<forall>q \<in> set (map fst (casDir c)). \<not> anomalous c q) \<longrightarrow>
        snd (enumeratePasses IsInterrupted n c) = c) \<and>
     (\<forall>h. isl (casTable_Open h c) \<longrightarrow>
        (\<forall>out \<in> set (fst (enumeratePasses IsInterrupted n c)). h \<notin> set (yielded out)))"
proof -
  have a: "TrashName \<notin> set (yielded out)"
    if "out \<in> set (fst (enumeratePasses IsInterrupted n c))" for out
    using enumeratePasses_yielded_live [OF assms that, of TrashName] not_validPath_TrashName
    by blast
  from enumeratePasses_trashed [of IsInterrupted n c] obtain new where
    new: "trashed (snd (enumeratePasses IsInterrupted n c)) = trashed c @ new"
    "\<forall>entry \<in> set new. quarantinePath (fst entry)"
    by blast
  have b: "\<forall>entry \<in> set (trashed c). entry \<in> set (trashed (snd (enumeratePasses IsInterrupted n c)))"
    using new(1) by simp
  have d: "\<forall>entry \<in> set (trashed (snd (enumeratePasses IsInterrupted n c))).
      entry \<in> set (trashed c) \<or> (fst entry \<noteq> [] \<and> hd (fst entry) \<noteq> TrashName)"
    using new quarantinePath_not_trash by auto
  have e: "(\<forall>q \<in> set (map fst (casDir c)). \<not> anomalous c q) \<longrightarrow>
      snd (enumeratePasses IsInterrupted n c) = c"
    using enumeratePasses_clean by blast
  have f: "h \<notin> set (yielded out)"
    if "isl (casTable_Open h c)" "out \<in> set (fst (enumeratePasses IsInterrupted n c))" for h out
    using enumeratePasses_yielded_live [OF assms that(2), of h] that(1) by auto
  show ?thesis using a b d e f by blast
qed

text \<open>Two passes over a store with one blob and one quarantined item.\<close>
theorem Enumerate_skips_trash_directory_witness:
  "wellFormed \<lparr>casDir = [(''105'', Dir [(''e7a844ac896f68e6f7dc0a9389d3e9be95abc'', File ''content1'')])],
               trash = Some [([''105'', ''tmp''], File ''x'')]\<rparr> \<and>
   TrashName \<in> set (readDirNames_casDir
      \<lparr>casDir = [(''105'', Dir [(''e7a844ac896f68e6f7dc0a9389d3e9be95abc'', File ''content1'')])],
        trash = Some [([''105'', ''tmp''], File ''x'')]\<rparr>) \<and>
   snd (enumeratePasses (\<lambda>j k. False) 2
      \<lparr>casDir = [(''105'', Dir [(''e7a844ac896f68e6f7dc0a9389d3e9be95abc'', File ''content1'')])],
        trash = Some [([''105'', ''tmp''], File ''x'')]\<rparr>) =
     \<lparr>casDir = [(''105'', Dir [(''e7a844ac896f68e6f7dc0a9389d3e9be95abc'', File ''content1'')])],
       trash = Some [([''105'', ''tmp''], File ''x'')]\<rparr> \<and>
   fst (enumeratePasses (\<lambda>j k. False) 2
      \<lparr>casDir = [(''105'', Dir [(''e7a844ac896f68e6f7dc0a9389d3e9be95abc'', File ''content1'')])],
        trash = Some [([''105'', ''tmp''], File ''x'')]\<rparr>) =
     [[\<lparr>Item = ''105e7a844ac896f68e6f7dc0a9389d3e9be95abc'', Error = None\<rparr>],
      [\<lparr>Item = ''105e7a844ac896f68e6f7dc0a9389d3e9be95abc'', Error = None\<rparr>]]"
proof -
  let ?c = "\<lparr>casDir = [(''105'', Dir [(''e7a844ac896f68e6f7dc0a9389d3e9be95abc'', File ''content1'')])],
               trash = Some [([''105'', ''tmp''], File ''x'')]\<rparr>"
  have w: "wellFormed ?c"
    by (simp add: wellFormed_def TrashName_def)
  have t: "TrashName \<in> set (readDirNames_casDir ?c)"
    by (simp add: readDirNames_casDir_def)
  have n: "\<forall>q \<in> set (map fst (casDir ?c)). \<not> anomalous ?c q"
    by (simp add: anomalous_def eval_store)
  from Enumerate_skips_trash_directory [OF w, of "\<lambda>j k. False" 2] n
  have s: "snd (enumeratePasses (\<lambda>j k. False) 2 ?c) = ?c"
    by blast
  have e: "casTable_Enumerate (\<lambda>k. False) ?c =
      ([\<lparr>Item = ''105e7a844ac896f68e6f7dc0a9389d3e9be95abc'', Error = None\<rparr>], ?c)"
    by (simp add: eval_store)
  have f: "fst (enumeratePasses (\<lambda>j k. False) 2 ?c) =
     [[\<lparr>Item = ''105e7a844ac896f68e6f7dc0a9389d3e9be95abc'', Error = None\<rparr>],
      [\<lparr>Item = ''105e7a844ac896f68e6f7dc0a9389d3e9be95abc'', Error = None\<rparr>]]"
    by (simp add: numeral_2_eq_2 e)
  from w t s f show ?thesis by (intro conjI)
qed

end
